theory Spec2Isabelle
  imports Main
begin

section \<open>Data model\<close>

text \<open>
  The relation extractor of \<^verbatim>\<open>flair/models/relation_extractor_model.py\<close> works on
  sentences, tokens, spans and labels of \<^verbatim>\<open>flair.data\<close>. Exceptions of the Python
  code are values of the type \<open>error\<close>; a function that can raise returns
  \<open>error + 'a\<close>, with \<open>Inl\<close> for the exception.
\<close>

datatype error =
  IndexError | NameError | UnboundLocalError | RuntimeError | ValueError | AttributeError

text \<open>
  A token knows its position in its sentence (\<open>idx\<close>, counted from 1), its text and the
  sentence object that owns it. Objects are referred to by address: \<open>sentence\<close> is the
  address of the owning sentence. Two tokens of one sentence are equal exactly when they
  stand at the same position.
\<close>

record token =
  idx :: nat
  token_text :: string
  sentence :: nat

text \<open>A span is the list of its tokens: \<^verbatim>\<open>span[0]\<close>, \<^verbatim>\<open>span[-1]\<close>, \<^verbatim>\<open>span.tokens[0]\<close>.\<close>

type_synonym span = "token list"

text \<open>
  A span label holds a \<^verbatim>\<open>Span\<close> object and a value: \<open>span_of\<close> is the token list of
  the object and \<open>span_address\<close> its address. \<^verbatim>\<open>==\<close> on two \<^verbatim>\<open>Span\<close> objects is the
  identity of the objects, so it compares addresses: two objects over the same tokens
  are different spans, and one object can carry several labels.
\<close>

record span_label =
  span_of :: span
  span_address :: nat
  span_value :: string

record relation_label =
  head :: span
  tail :: span
  relation_value :: string

text \<open>
  \<^verbatim>\<open>RelationLabel(head=span_1, tail=span_2, value=None, score=None)\<close>: the pending label
  candidate of prediction has neither value nor score.
\<close>

record label_candidate =
  candidate_head :: span
  candidate_tail :: span

text \<open>
  A sentence: its tokens, and \<^verbatim>\<open>get_labels(typename)\<close> for the relation layer and for
  the span layer. A type name is optional, as the constructor's default is \<^verbatim>\<open>None\<close>.
\<close>

record sentence_data =
  tokens :: "token list"
  get_relation_labels :: "string option \<Rightarrow> relation_label list"
  get_span_labels :: "string option \<Rightarrow> span_label list"

section \<open>Python lists and loops\<close>

text \<open>\<^verbatim>\<open>xs[i]\<close> for an index that is not negative.\<close>

definition getitem :: "'x list \<Rightarrow> nat \<Rightarrow> error + 'x" where
  "getitem xs i = (if i < length xs then Inr (xs ! i) else Inl IndexError)"

text \<open>
  \<^verbatim>\<open>for x in xs: body\<close> over a loop state; the first exception ends the loop and is the
  result.
\<close>

fun for_each :: "('x \<Rightarrow> 's \<Rightarrow> error + 's) \<Rightarrow> 'x list \<Rightarrow> 's \<Rightarrow> error + 's" where
  "for_each body [] s = Inr s"
| "for_each body (x # xs) s =
     (case body x s of Inl e \<Rightarrow> Inl e | Inr s' \<Rightarrow> for_each body xs s')"

section \<open>Sentences made from text\<close>

text \<open>
  Modelled from the spec: \<^verbatim>\<open>Sentence(text, use_tokenizer=False)\<close> of \<^verbatim>\<open>flair.data\<close> is
  not among the sources. The spec says the rewritten sentence is "re-tokenized from the
  marker-annotated text, marker tokens kept as literal tokens": the text is split at
  space characters and empty words are dropped. \<open>word\<close> is the word read so far.
\<close>

fun space_tokenize :: "string \<Rightarrow> string \<Rightarrow> string list" where
  "space_tokenize word [] = (if word = [] then [] else [word])"
| "space_tokenize word (c # cs) =
     (if c = CHR '' ''
      then (if word = [] then [] else [word]) @ space_tokenize [] cs
      else space_tokenize (word @ [c]) cs)"

text \<open>
  The new sentence object lives at the address \<open>ref\<close>; its tokens are numbered from 1
  and it carries no labels.
\<close>

definition Sentence :: "nat \<Rightarrow> string \<Rightarrow> sentence_data" where
  "Sentence ref txt =
     \<lparr> tokens = map (\<lambda>(i, w). \<lparr> idx = Suc i, token_text = w, sentence = ref \<rparr>)
                   (enumerate 0 (space_tokenize [] txt)),
       get_relation_labels = (\<lambda>_. []),
       get_span_labels = (\<lambda>_. []) \<rparr>"

section \<open>add\_entity\_markers\<close>

text \<open>
  The local variables of the scan. \<^verbatim>\<open>entity_one_is_first\<close> starts as \<^verbatim>\<open>None\<close>; the four
  positions are unbound until the scan assigns them.
\<close>

record marker_scan =
  text_str :: string
  entity_one_is_first :: "bool option"
  offset :: nat
  span_1_startid :: "nat option"
  span_1_stopid :: "nat option"
  span_2_startid :: "nat option"
  span_2_stopid :: "nat option"

definition marker_scan_init :: marker_scan where
  "marker_scan_init =
     \<lparr> text_str = [], entity_one_is_first = None, offset = 0,
       span_1_startid = None, span_1_stopid = None,
       span_2_startid = None, span_2_stopid = None \<rparr>"

text \<open>
  One round of \<^verbatim>\<open>for token in sentence\<close> (lines 83 to 106). \<^verbatim>\<open>span_2[0]\<close> and
  \<^verbatim>\<open>span_1[0]\<close> raise IndexError on a span without tokens.
\<close>

definition marker_body :: "span \<Rightarrow> span \<Rightarrow> token \<Rightarrow> marker_scan \<Rightarrow> error + marker_scan" where
  "marker_body span_1 span_2 tok st0 =
     (if span_2 = [] \<or> span_1 = [] then Inl IndexError
      else
        let st1 = (if tok = hd span_2
                   then st0 \<lparr> entity_one_is_first :=
                                (case entity_one_is_first st0 of
                                   None \<Rightarrow> Some False | Some b \<Rightarrow> Some b),
                              offset := offset st0 + 1,
                              text_str := text_str st0 @ '' <e2>'',
                              span_2_startid := Some (offset st0 + 1) \<rparr>
                   else st0);
            st2 = (if tok = hd span_1
                   then st1 \<lparr> offset := offset st1 + 1,
                              text_str := text_str st1 @ '' <e1>'',
                              entity_one_is_first :=
                                (case entity_one_is_first st1 of
                                   None \<Rightarrow> Some True | Some b \<Rightarrow> Some b),
                              span_1_startid := Some (offset st1 + 1) \<rparr>
                   else st1);
            st3 = st2 \<lparr> text_str := text_str st2 @ '' '' @ token_text tok \<rparr>;
            st4 = (if tok = last span_1
                   then st3 \<lparr> offset := offset st3 + 1,
                              text_str := text_str st3 @ '' </e1>'',
                              span_1_stopid := Some (offset st3 + 1) \<rparr>
                   else st3);
            st5 = (if tok = last span_2
                   then st4 \<lparr> offset := offset st4 + 1,
                              text_str := text_str st4 @ '' </e2>'',
                              span_2_stopid := Some (offset st4 + 1) \<rparr>
                   else st4)
        in Inr (st5 \<lparr> offset := offset st5 + 1 \<rparr>))"

definition marker_loop :: "sentence_data \<Rightarrow> span \<Rightarrow> span \<Rightarrow> error + marker_scan" where
  "marker_loop sent span_1 span_2 =
     for_each (marker_body span_1 span_2) (tokens sent) marker_scan_init"

text \<open>
  Lines 108 to 117. Reading an unbound position raises UnboundLocalError, an index past
  the end of the rewritten sentence raises IndexError, and \<^verbatim>\<open>asd\<close> is an undefined name:
  evaluating it raises NameError. The returned pair is
  \<^verbatim>\<open>(expanded_span_1, expanded_span_2) if entity_one_is_first else (expanded_span_2, expanded_span_1)\<close>.
\<close>

definition add_entity_markers ::
  "nat \<Rightarrow> sentence_data \<Rightarrow> span \<Rightarrow> span \<Rightarrow> error + (sentence_data \<times> (span \<times> span))" where
  "add_entity_markers ref sent span_1 span_2 =
     (case marker_loop sent span_1 span_2 of
        Inl e \<Rightarrow> Inl e
      | Inr st \<Rightarrow>
          let expanded_sentence = Sentence ref (text_str st) in
          (case span_1_startid st of
             None \<Rightarrow> Inl UnboundLocalError
           | Some i1 \<Rightarrow>
             (case getitem (tokens expanded_sentence) (i1 - 1) of
                Inl e \<Rightarrow> Inl e
              | Inr t1 \<Rightarrow>
                (case span_2_startid st of
                   None \<Rightarrow> Inl UnboundLocalError
                 | Some i2 \<Rightarrow>
                   (case getitem (tokens expanded_sentence) (i2 - 1) of
                      Inl e \<Rightarrow> Inl e
                    | Inr t2 \<Rightarrow>
                        if token_text t1 \<noteq> ''<e1>'' then Inl NameError
                        else if token_text t2 \<noteq> ''<e2>'' then Inl NameError
                        else Inr (expanded_sentence,
                                  if entity_one_is_first st = Some True
                                  then ([t1], [t2]) else ([t2], [t1])))))))"

section \<open>The embedding provider\<close>

text \<open>
  The embedding classes are external. \<^verbatim>\<open>forward_pass\<close> and the constructor use: the class
  of the object (compared with \<^verbatim>\<open>TransformerDocumentEmbeddings\<close>), its
  \<^verbatim>\<open>embedding_length\<close>, \<^verbatim>\<open>embed\<close>, \<^verbatim>\<open>eval\<close> and \<^verbatim>\<open>train\<close>. What \<^verbatim>\<open>embed\<close> stores is
  read back later: \<open>sentence_embedding b s\<close> is the value of \<^verbatim>\<open>s.embedding\<close> and
  \<open>token_embedding b t\<close> the value of \<^verbatim>\<open>t.get_embedding()\<close> once the sentence has been
  embedded while the provider's training flag was \<open>b\<close>. The calls made on the provider
  are recorded in order in \<open>calls\<close>; an \<open>Embed\<close> entry keeps the training flag at the
  call and the sentences passed.
\<close>

datatype embeddings_class = TokenEmbeddings | TransformerDocumentEmbeddings

datatype provider_call = Eval | Train | Embed bool "sentence_data list"

record 'a embeddings =
  embeddings_class :: embeddings_class
  embedding_length :: nat
  sentence_embedding :: "bool \<Rightarrow> sentence_data \<Rightarrow> 'a list"
  token_embedding :: "bool \<Rightarrow> token \<Rightarrow> 'a list"
  emb_training :: bool
  calls :: "provider_call list"

definition eval_mode :: "'a embeddings \<Rightarrow> 'a embeddings" where
  "eval_mode e = e \<lparr> emb_training := False, calls := calls e @ [Eval] \<rparr>"

definition train_mode :: "'a embeddings \<Rightarrow> 'a embeddings" where
  "train_mode e = e \<lparr> emb_training := True, calls := calls e @ [Train] \<rparr>"

definition embed :: "'a embeddings \<Rightarrow> sentence_data list \<Rightarrow> 'a embeddings" where
  "embed e step = e \<lparr> calls := calls e @ [Embed (emb_training e) step] \<rparr>"

section \<open>The decoder\<close>

text \<open>
  \<^verbatim>\<open>nn.Linear(in_features, out_features)\<close> maps every row of its input; a row whose
  length is not \<open>in_features\<close> is a shape error. \<open>unit_output row j\<close> is output \<open>j\<close> for
  the row: the weights are the parameter of the model.
\<close>

record 'a linear =
  in_features :: nat
  out_features :: nat
  unit_output :: "'a list \<Rightarrow> nat \<Rightarrow> 'a"

definition linear_forward :: "'a linear \<Rightarrow> 'a list list \<Rightarrow> error + 'a list list" where
  "linear_forward l rows =
     (if list_all (\<lambda>row. length row = in_features l) rows
      then Inr (map (\<lambda>row. map (unit_output l row) [0..<out_features l]) rows)
      else Inl RuntimeError)"

text \<open>
  The constructor creates either \<^verbatim>\<open>decoder\<close> or \<^verbatim>\<open>decoder_1\<close>, \<^verbatim>\<open>nonlinearity\<close> and
  \<^verbatim>\<open>decoder_2\<close>. The rectifier acts on every entry.
\<close>

datatype 'a decoder =
  Decoder "'a linear"
  | Decoder_1_2 "'a linear" "'a \<Rightarrow> 'a" "'a linear"

text \<open>\<^verbatim>\<open>torch.stack\<close> of a list of vectors: they must be of one length, and at least one.\<close>

definition stack :: "'a list list \<Rightarrow> error + 'a list list" where
  "stack rows =
     (case rows of
        [] \<Rightarrow> Inl RuntimeError
      | r # rs \<Rightarrow> if list_all (\<lambda>row. length row = length r) rs then Inr rows
                  else Inl RuntimeError)"

section \<open>The model\<close>

text \<open>
  The attributes of a \<^verbatim>\<open>RelationExtractor\<close>. \<open>dropout\<close> is the dropout layer as it acts
  in one call: \<open>dropout i j x\<close> is what becomes of entry \<open>j\<close> of row \<open>i\<close>. \<open>training\<close> is
  the training flag of the module. \<open>label_dictionary\<close> and \<open>loss_weights\<close> (a tensor
  or \<^verbatim>\<open>None\<close>) are set by the base class from the keyword arguments.
\<close>

record 'a relation_extractor =
  embeddings :: "'a embeddings"
  label_type :: "string option"
  span_label_type :: "string option"
  use_gold_spans :: bool
  pooling_operation :: string
  use_entity_markers :: bool
  dropout_value :: 'a
  dropout :: "nat \<Rightarrow> nat \<Rightarrow> 'a \<Rightarrow> 'a"
  use_entity_pairs :: "(string \<times> string) set option"
  label_dictionary :: "string list"
  loss_weights :: "'a list option"
  non_linear_decoder :: bool
  decoders :: "'a decoder"
  training :: bool

section \<open>forward\_pass: generating the candidates\<close>

text \<open>
  \<^verbatim>\<open>create_position_string\<close> (lines 296 to 297). \<^verbatim>\<open>Span.id_text\<close> is external: it is the
  parameter \<open>id_text\<close>.
\<close>

definition create_position_string :: "(span \<Rightarrow> string) \<Rightarrow> span \<Rightarrow> span \<Rightarrow> string" where
  "create_position_string id_text hd_span tl_span = id_text hd_span @ '' -> '' @ id_text tl_span"

text \<open>Lines 134 to 137: a later relation label of the same key replaces an earlier one.\<close>

definition make_relation_dict ::
  "(span \<Rightarrow> string) \<Rightarrow> relation_label list \<Rightarrow> (string \<rightharpoonup> relation_label)" where
  "make_relation_dict id_text relation_labels =
     foldl (\<lambda>d relation_label.
              d(create_position_string id_text (head relation_label) (tail relation_label)
                  \<mapsto> relation_label))
           Map.empty relation_labels"

text \<open>
  The lists \<^verbatim>\<open>forward_pass\<close> fills (lines 124 to 129). \<open>next_ref\<close> is the address the next
  new sentence object gets.
\<close>

record forward_lists =
  empty_label_candidates :: "label_candidate list"
  entity_pairs :: "(span \<times> span) list"
  labels :: "string list list"
  sentences_to_label :: "nat list"
  sentences_to_embed :: "sentence_data list"
  next_ref :: nat

text \<open>
  Lines 156 to 167: the label of the pair; \<open>None\<close> is the \<^verbatim>\<open>continue\<close> of gold-only mode.
\<close>

definition pair_label ::
  "(span \<Rightarrow> string) \<Rightarrow> 'a relation_extractor \<Rightarrow> (string \<rightharpoonup> relation_label) \<Rightarrow>
   span \<Rightarrow> span \<Rightarrow> string option" where
  "pair_label id_text m relation_dict span_1 span_2 =
     (let position_string = create_position_string id_text span_1 span_2 in
      case relation_dict position_string of
        Some relation_label \<Rightarrow> Some (relation_value relation_label)
      | None \<Rightarrow> if use_gold_spans m then None else Some ''O'')"

text \<open>Lines 169 to 182: the candidate is appended to the lists.\<close>

definition emit_pair ::
  "'a relation_extractor \<Rightarrow> bool \<Rightarrow> sentence_data \<Rightarrow> span \<Rightarrow> span \<Rightarrow> string \<Rightarrow>
   forward_lists \<Rightarrow> error + forward_lists" where
  "emit_pair m return_label_candidates sent span_1 span_2 label st =
     (case (if use_entity_markers m
            then (case add_entity_markers (next_ref st) sent span_1 span_2 of
                    Inl e \<Rightarrow> Inl e
                  | Inr (expanded_sentence, expanded_entities) \<Rightarrow>
                      Inr (st \<lparr> sentences_to_embed := sentences_to_embed st @ [expanded_sentence],
                                entity_pairs := entity_pairs st @ [expanded_entities],
                                next_ref := Suc (next_ref st) \<rparr>))
            else Inr (st \<lparr> entity_pairs := entity_pairs st @ [(span_1, span_2)] \<rparr>)) of
        Inl e \<Rightarrow> Inl e
      | Inr st1 \<Rightarrow>
          let st2 = st1 \<lparr> labels := labels st1 @ [[label]] \<rparr> in
          if return_label_candidates
          then (case span_1 of
                  [] \<Rightarrow> Inl IndexError
                | t # _ \<Rightarrow>
                    Inr (st2 \<lparr> empty_label_candidates :=
                                 empty_label_candidates st2 @
                                 [\<lparr> candidate_head = span_1, candidate_tail = span_2 \<rparr>],
                               sentences_to_label := sentences_to_label st2 @ [sentence t] \<rparr>))
          else Inr st2)"

text \<open>
  Lines 147 to 182: one round of the inner loop. \<^verbatim>\<open>span_1 == span_2\<close> on line 149 is the
  identity of the two \<^verbatim>\<open>Span\<close> objects.
\<close>

definition pair_body ::
  "(span \<Rightarrow> string) \<Rightarrow> 'a relation_extractor \<Rightarrow> bool \<Rightarrow> sentence_data \<Rightarrow>
   (string \<rightharpoonup> relation_label) \<Rightarrow> span_label \<Rightarrow> span_label \<Rightarrow>
   forward_lists \<Rightarrow> error + forward_lists" where
  "pair_body id_text m return_label_candidates sent relation_dict span_label span_label_2 st =
     (let span_1 = span_of span_label; span_2 = span_of span_label_2 in
      if span_address span_label = span_address span_label_2 then Inr st
      else if (case use_entity_pairs m of
                 None \<Rightarrow> False
               | Some pairs \<Rightarrow> (span_value span_label, span_value span_label_2) \<notin> pairs)
      then Inr st
      else (case pair_label id_text m relation_dict span_1 span_2 of
              None \<Rightarrow> Inr st
            | Some label \<Rightarrow> emit_pair m return_label_candidates sent span_1 span_2 label st))"

text \<open>Lines 131 to 182: one round of the loop over the sentences.\<close>

definition sentence_body ::
  "(span \<Rightarrow> string) \<Rightarrow> 'a relation_extractor \<Rightarrow> bool \<Rightarrow> sentence_data \<Rightarrow>
   forward_lists \<Rightarrow> error + forward_lists" where
  "sentence_body id_text m return_label_candidates sent st =
     (let relation_dict = make_relation_dict id_text (get_relation_labels sent (label_type m));
          span_labels = get_span_labels sent (span_label_type m)
      in for_each
           (\<lambda>span_label.
              for_each (pair_body id_text m return_label_candidates sent relation_dict span_label)
                span_labels)
           span_labels st)"

text \<open>Lines 124 to 182.\<close>

definition generate ::
  "(span \<Rightarrow> string) \<Rightarrow> 'a relation_extractor \<Rightarrow> sentence_data list \<Rightarrow> bool \<Rightarrow> nat \<Rightarrow>
   error + forward_lists" where
  "generate id_text m sentences return_label_candidates ref =
     for_each (sentence_body id_text m return_label_candidates) sentences
       \<lparr> empty_label_candidates = [], entity_pairs = [], labels = [],
         sentences_to_label = [],
         sentences_to_embed = (if use_entity_markers m then [] else sentences),
         next_ref = ref \<rparr>"

section \<open>forward\_pass: chunks, embedding and decoding\<close>

text \<open>
  \<^verbatim>\<open>[xs[x: x + step] for x in range(0, len(xs), step)]\<close>: the range has
  \<open>\<lceil>len(xs) / step\<rceil>\<close> elements \<open>0, step, 2 step, ...\<close> and a step of 0 is a ValueError.
\<close>

definition slices :: "nat \<Rightarrow> 'x list \<Rightarrow> error + 'x list list" where
  "slices step xs =
     (if step = 0 then Inl ValueError
      else Inr (map (\<lambda>k. take step (drop (k * step) xs))
                  [0..<(length xs + step - 1) div step]))"

text \<open>Lines 186 to 194.\<close>

definition embed_steps ::
  "nat \<Rightarrow> sentence_data list \<Rightarrow> (span \<times> span) list \<Rightarrow>
   error + (sentence_data list list \<times> (span \<times> span) list list)" where
  "embed_steps n_sentences to_embed pairs =
     (let max_relations_in_batch = n_sentences * 4 in
      if length to_embed > max_relations_in_batch
      then (case slices max_relations_in_batch to_embed of
              Inl e \<Rightarrow> Inl e
            | Inr sentence_embed_steps \<Rightarrow>
                (case slices max_relations_in_batch pairs of
                   Inl e \<Rightarrow> Inl e
                 | Inr entity_pairs_steps \<Rightarrow> Inr (sentence_embed_steps, entity_pairs_steps)))
      else Inr ([to_embed], [pairs]))"

text \<open>The variables of the embedding loops (lines 196 to 224).\<close>

record 'a embed_loop =
  provider :: "'a embeddings"
  relation_embeddings :: "'a list list"
  detach :: bool

text \<open>Lines 201 to 208: one round for a provider of whole-document embeddings.\<close>

definition document_step :: "sentence_data list \<Rightarrow> 'a embed_loop \<Rightarrow> error + 'a embed_loop" where
  "document_step sentences_to_embed_step st =
     (let e1 = (if detach st then eval_mode (provider st) else provider st);
          e2 = embed e1 sentences_to_embed_step
      in Inr \<lparr> provider = e2,
               relation_embeddings =
                 relation_embeddings st @
                 map (sentence_embedding e2 (emb_training e1)) sentences_to_embed_step,
               detach = True \<rparr>)"

text \<open>
  Lines 218 to 222: \<^verbatim>\<open>torch.cat\<close> of the embeddings of the first tokens of the two spans
  of the pair. \<^verbatim>\<open>span.tokens[0]\<close> raises IndexError on a span without tokens.
\<close>

definition pair_embedding ::
  "'a embeddings \<Rightarrow> bool \<Rightarrow> (span \<times> span) \<Rightarrow> 'a list list \<Rightarrow> error + 'a list list" where
  "pair_embedding e b entity_pair rel =
     (case fst entity_pair of
        [] \<Rightarrow> Inl IndexError
      | t1 # _ \<Rightarrow>
          (case snd entity_pair of
             [] \<Rightarrow> Inl IndexError
           | t2 # _ \<Rightarrow> Inr (rel @ [token_embedding e b t1 @ token_embedding e b t2])))"

text \<open>Lines 211 to 224: one round for the other providers, over the zipped steps.\<close>

definition token_step ::
  "sentence_data list \<times> (span \<times> span) list \<Rightarrow> 'a embed_loop \<Rightarrow> error + 'a embed_loop" where
  "token_step steps st =
     (let e1 = (if detach st then eval_mode (provider st) else provider st);
          e2 = embed e1 (fst steps)
      in case for_each (pair_embedding e2 (emb_training e1)) (snd steps)
                (relation_embeddings st) of
           Inl err \<Rightarrow> Inl err
         | Inr rel \<Rightarrow> Inr \<lparr> provider = e2, relation_embeddings = rel, detach = True \<rparr>)"

text \<open>Lines 196 to 227: both loops, and the provider set back to training mode.\<close>

definition embed_all ::
  "'a relation_extractor \<Rightarrow> sentence_data list list \<Rightarrow> (span \<times> span) list list \<Rightarrow>
   error + ('a embeddings \<times> 'a list list)" where
  "embed_all m sentence_embed_steps entity_pairs_steps =
     (let st0 = \<lparr> provider = embeddings m, relation_embeddings = [], detach = False \<rparr> in
      case (if embeddings_class (embeddings m) = TransformerDocumentEmbeddings
            then for_each document_step sentence_embed_steps st0
            else for_each token_step (zip sentence_embed_steps entity_pairs_steps) st0) of
        Inl err \<Rightarrow> Inl err
      | Inr st \<Rightarrow>
          Inr (if training m then train_mode (provider st) else provider st,
               relation_embeddings st))"

text \<open>Lines 239 to 245: the dropout layer and the decoder.\<close>

definition apply_dropout :: "(nat \<Rightarrow> nat \<Rightarrow> 'a \<Rightarrow> 'a) \<Rightarrow> 'a list list \<Rightarrow> 'a list list" where
  "apply_dropout d rows =
     map (\<lambda>(i, row). map (\<lambda>(j, x). d i j x) (enumerate 0 row)) (enumerate 0 rows)"

definition decode :: "'a relation_extractor \<Rightarrow> 'a list list \<Rightarrow> error + 'a list list" where
  "decode m all_relations =
     (case decoders m of
        Decoder decoder \<Rightarrow>
          if non_linear_decoder m then Inl AttributeError
          else linear_forward decoder all_relations
      | Decoder_1_2 decoder_1 nonlinearity decoder_2 \<Rightarrow>
          if non_linear_decoder m
          then (case linear_forward decoder_1 all_relations of
                  Inl e \<Rightarrow> Inl e
                | Inr hidden \<Rightarrow> linear_forward decoder_2 (map (map nonlinearity) hidden))
          else Inl AttributeError)"

text \<open>
  What \<^verbatim>\<open>forward_pass\<close> returns: the scores (or \<^verbatim>\<open>None\<close>), the labels and, when
  \<^verbatim>\<open>return_label_candidates\<close> is set, the sentences to label and the label candidates.
\<close>

record 'a forward_result =
  scores :: "'a list list option"
  result_labels :: "string list list"
  label_candidates :: "(nat list \<times> label_candidate list) option"

text \<open>
  \<^verbatim>\<open>forward_pass\<close> (lines 119 to 256). Beside the returned tuple, the result holds the
  embedding provider as the call leaves it.
\<close>

definition forward_pass ::
  "(span \<Rightarrow> string) \<Rightarrow> 'a relation_extractor \<Rightarrow> sentence_data list \<Rightarrow> bool \<Rightarrow> nat \<Rightarrow>
   error + ('a forward_result \<times> 'a embeddings)" where
  "forward_pass id_text m sentences return_label_candidates ref =
     (case generate id_text m sentences return_label_candidates ref of
        Inl e \<Rightarrow> Inl e
      | Inr st \<Rightarrow>
          (case (if length (labels st) > 0
                 then (case embed_steps (length sentences) (sentences_to_embed st)
                              (entity_pairs st) of
                         Inl e \<Rightarrow> Inl e
                       | Inr (sentence_embed_steps, entity_pairs_steps) \<Rightarrow>
                           (case embed_all m sentence_embed_steps entity_pairs_steps of
                              Inl e \<Rightarrow> Inl e
                            | Inr (e', rel) \<Rightarrow>
                                (case stack rel of
                                   Inl e \<Rightarrow> Inl e
                                 | Inr all_relations \<Rightarrow>
                                     (case decode m (apply_dropout (dropout m) all_relations) of
                                        Inl e \<Rightarrow> Inl e
                                      | Inr sentence_relation_scores \<Rightarrow>
                                          Inr (Some sentence_relation_scores, e')))))
                 else Inr (None, embeddings m)) of
             Inl e \<Rightarrow> Inl e
           | Inr (sentence_relation_scores, e') \<Rightarrow>
               Inr (\<lparr> scores = sentence_relation_scores,
                      result_labels = labels st,
                      label_candidates =
                        (if return_label_candidates
                         then Some (sentences_to_label st, empty_label_candidates st)
                         else None) \<rparr>,
                    e')))"

section \<open>The constructor and the persisted state\<close>

text \<open>
  What can be passed as \<^verbatim>\<open>loss_weights\<close>: the dictionary of weights per label of the
  docstring (lines 34 to 35), or a tensor, which is what the persisted state holds.
\<close>

datatype 'a weights = Weights_dict "(string \<times> 'a) list" | Weights_tensor "'a list"

text \<open>
  The arguments of \<^verbatim>\<open>__init__\<close> (lines 16 to 28). \<open>arg_label_dictionary\<close> and
  \<open>arg_loss_weights\<close> are the keyword arguments handed on to the base class.
  \<^verbatim>\<open>set(use_entity_pairs)\<close> is the set of the pairs given.
\<close>

record 'a init_args =
  arg_embeddings :: "'a embeddings"
  arg_label_type :: "string option"
  arg_span_label_type :: "string option"
  arg_use_entity_markers :: bool
  arg_use_gold_spans :: bool
  arg_use_entity_pairs :: "(string \<times> string) set option"
  arg_pooling_operation :: string
  arg_dropout_value :: 'a
  arg_non_linear_decoder :: bool
  arg_label_dictionary :: "string list"
  arg_loss_weights :: "'a weights option"

text \<open>The defaults of the signature, for the arguments a call leaves out.\<close>

definition default_init_args :: "'a::zero embeddings \<Rightarrow> string list \<Rightarrow> 'a init_args" where
  "default_init_args emb dictionary =
     \<lparr> arg_embeddings = emb,
       arg_label_type = None,
       arg_span_label_type = None,
       arg_use_entity_markers = False,
       arg_use_gold_spans = False,
       arg_use_entity_pairs = None,
       arg_pooling_operation = ''first_last'',
       arg_dropout_value = 0,
       arg_non_linear_decoder = False,
       arg_label_dictionary = dictionary,
       arg_loss_weights = None \<rparr>"

text \<open>
  What the constructor draws or fixes outside its arguments: the initial weights of the
  linear layers, the rectifier and the dropout layer.
\<close>

record 'a layers =
  decoder_weights :: "'a list \<Rightarrow> nat \<Rightarrow> 'a"
  decoder_1_weights :: "'a list \<Rightarrow> nat \<Rightarrow> 'a"
  decoder_2_weights :: "'a list \<Rightarrow> nat \<Rightarrow> 'a"
  rectifier :: "'a \<Rightarrow> 'a"
  dropout_layer :: "nat \<Rightarrow> nat \<Rightarrow> 'a \<Rightarrow> 'a"

text \<open>
  Modelled from the spec: \<^verbatim>\<open>Dictionary.add_item\<close> is not among the sources. The spec says
  the label dictionary "always contains O, appended once at model construction if
  absent".
\<close>

definition add_item :: "string list \<Rightarrow> string \<Rightarrow> string list" where
  "add_item dictionary item = (if item \<in> set dictionary then dictionary else dictionary @ [item])"

text \<open>
  Modelled from the spec: the constructor of the base class (\<^verbatim>\<open>flair.nn.DefaultClassifier\<close>)
  is not among the sources. It keeps the label dictionary and the "per-label loss
  weights": following the docstring of \<^verbatim>\<open>__init__\<close> (lines 34 to 35), the dictionary of
  weights becomes a tensor with one weight per label of the dictionary, 1.0 for a label
  without a weight. The weight of a label is looked up among the keys of the argument,
  label by label; a tensor has no keys, and the first lookup raises AttributeError.
\<close>

definition base_loss_weights ::
  "string list \<Rightarrow> 'a::one weights option \<Rightarrow> error + 'a list option" where
  "base_loss_weights dictionary given =
     (case given of
        None \<Rightarrow> Inr None
      | Some (Weights_dict d) \<Rightarrow>
          Inr (Some (map (\<lambda>tag. case map_of d tag of Some w \<Rightarrow> w | None \<Rightarrow> 1) dictionary))
      | Some (Weights_tensor t) \<Rightarrow>
          if dictionary = [] then Inr (Some []) else Inl AttributeError)"

text \<open>Lines 55 to 59.\<close>

definition relation_representation_length :: "'a embeddings \<Rightarrow> string \<Rightarrow> nat" where
  "relation_representation_length emb pooling =
     (let n = 2 * embedding_length emb;
          n = (if pooling = ''first_last'' then n * 2 else n)
      in if embeddings_class emb = TransformerDocumentEmbeddings
         then embedding_length emb else n)"

text \<open>
  \<^verbatim>\<open>__init__\<close> (lines 37 to 75): the constructor of the base class first, which can
  raise. A new module is in training mode.
\<close>

definition RelationExtractor ::
  "'a::one layers \<Rightarrow> 'a init_args \<Rightarrow> error + 'a relation_extractor" where
  "RelationExtractor w a =
     (case base_loss_weights (arg_label_dictionary a) (arg_loss_weights a) of
        Inl e \<Rightarrow> Inl e
      | Inr weights \<Rightarrow>
          let width = relation_representation_length (arg_embeddings a)
                        (arg_pooling_operation a);
              dictionary = add_item (arg_label_dictionary a) ''O''
          in Inr \<lparr> embeddings = arg_embeddings a,
                   label_type = arg_label_type a,
                   span_label_type = arg_span_label_type a,
                   use_gold_spans = arg_use_gold_spans a,
                   pooling_operation = arg_pooling_operation a,
                   use_entity_markers = arg_use_entity_markers a,
                   dropout_value = arg_dropout_value a,
                   dropout = dropout_layer w,
                   use_entity_pairs = arg_use_entity_pairs a,
                   label_dictionary = dictionary,
                   loss_weights = weights,
                   non_linear_decoder = arg_non_linear_decoder a,
                   decoders =
                     (if arg_non_linear_decoder a
                      then Decoder_1_2
                             \<lparr> in_features = width, out_features = 1024,
                               unit_output = decoder_1_weights w \<rparr>
                             (rectifier w)
                             \<lparr> in_features = 1024, out_features = length dictionary,
                               unit_output = decoder_2_weights w \<rparr>
                      else Decoder
                             \<lparr> in_features = width, out_features = length dictionary,
                               unit_output = decoder_weights w \<rparr>),
                   training = True \<rparr>)"

text \<open>The dictionary of \<^verbatim>\<open>_get_state_dict\<close> (lines 258 to 272).\<close>

record 'a model_state =
  state_dict :: "'a decoder"
  state_token_embeddings :: "'a embeddings"
  state_label_dictionary :: "string list"
  state_label_type :: "string option"
  state_span_label_type :: "string option"
  state_loss_weights :: "'a list option"
  state_pooling_operation :: string
  state_dropout_value :: 'a
  state_use_entity_pairs :: "(string \<times> string) set option"
  state_use_entity_markers :: bool
  state_non_linear_decoder :: bool

definition get_state_dict :: "'a relation_extractor \<Rightarrow> 'a model_state" where
  "get_state_dict m =
     \<lparr> state_dict = decoders m,
       state_token_embeddings = embeddings m,
       state_label_dictionary = label_dictionary m,
       state_label_type = label_type m,
       state_span_label_type = span_label_type m,
       state_loss_weights = loss_weights m,
       state_pooling_operation = pooling_operation m,
       state_dropout_value = dropout_value m,
       state_use_entity_pairs = use_entity_pairs m,
       state_use_entity_markers = use_entity_markers m,
       state_non_linear_decoder = non_linear_decoder m \<rparr>"

text \<open>
  Modelled from the spec: \<^verbatim>\<open>load_state_dict\<close> of the base module is not among the sources.
  The spec says "restoring must reconstruct an architecturally identical model before
  loading saved weights": the saved layers replace the new ones when their shapes agree,
  and the call fails otherwise.
\<close>

fun same_shape :: "'a decoder \<Rightarrow> 'a decoder \<Rightarrow> bool" where
  "same_shape (Decoder a) (Decoder b) =
     (in_features a = in_features b \<and> out_features a = out_features b)"
| "same_shape (Decoder_1_2 a1 f a2) (Decoder_1_2 b1 g b2) =
     (in_features a1 = in_features b1 \<and> out_features a1 = out_features b1 \<and>
      in_features a2 = in_features b2 \<and> out_features a2 = out_features b2)"
| "same_shape a b = False"

definition load_state_dict ::
  "'a relation_extractor \<Rightarrow> 'a decoder \<Rightarrow> error + 'a relation_extractor" where
  "load_state_dict m saved =
     (if same_shape (decoders m) saved then Inr (m \<lparr> decoders := saved \<rparr>)
      else Inl RuntimeError)"

text \<open>
  \<^verbatim>\<open>_init_model_with_state_dict\<close> (lines 274 to 289). \<open>restore_arguments\<close> are the arguments
  of the constructor call on lines 276 to 287: the keyword arguments of the call replace
  the defaults; \<^verbatim>\<open>use_gold_spans\<close> is not among them. The saved loss weights, a tensor or
  \<^verbatim>\<open>None\<close>, are passed as \<^verbatim>\<open>loss_weights\<close>.
\<close>

definition restore_arguments :: "'a::zero model_state \<Rightarrow> 'a init_args" where
  "restore_arguments state =
     (default_init_args (state_token_embeddings state) (state_label_dictionary state))
       \<lparr> arg_label_type := state_label_type state,
         arg_span_label_type := state_span_label_type state,
         arg_loss_weights := map_option Weights_tensor (state_loss_weights state),
         arg_pooling_operation := state_pooling_operation state,
         arg_dropout_value := state_dropout_value state,
         arg_use_entity_pairs := state_use_entity_pairs state,
         arg_use_entity_markers := state_use_entity_markers state,
         arg_non_linear_decoder := state_non_linear_decoder state \<rparr>"

definition init_model_with_state_dict ::
  "'a::{zero,one} layers \<Rightarrow> 'a model_state \<Rightarrow> error + 'a relation_extractor" where
  "init_model_with_state_dict w state =
     (case RelationExtractor w (restore_arguments state) of
        Inl e \<Rightarrow> Inl e
      | Inr model \<Rightarrow> load_state_dict model (state_dict state))"

section \<open>Notions used in the statements and proofs\<close>

text \<open>
  The text a list of words is joined to by the scan (a space before every word), the
  words that survive re-tokenization unchanged (not empty, no space inside), and the
  words the scan writes for one token and for a list of tokens.
\<close>

definition spaced :: "string list \<Rightarrow> string" where
  "spaced ws = concat (map (\<lambda>w. CHR '' '' # w) ws)"

definition plain_word :: "string \<Rightarrow> bool" where
  "plain_word w = (w \<noteq> [] \<and> CHR '' '' \<notin> set w)"

definition token_words :: "span \<Rightarrow> span \<Rightarrow> token \<Rightarrow> string list" where
  "token_words span_1 span_2 tok =
     (if tok = hd span_2 then [''<e2>''] else []) @
     (if tok = hd span_1 then [''<e1>''] else []) @
     [token_text tok] @
     (if tok = last span_1 then [''</e1>''] else []) @
     (if tok = last span_2 then [''</e2>''] else [])"

definition sentence_words :: "span \<Rightarrow> span \<Rightarrow> token list \<Rightarrow> string list" where
  "sentence_words span_1 span_2 ts = concat (map (token_words span_1 span_2) ts)"

text \<open>
  A pair of one-token spans whose tokens are the two opening markers, in either order.
\<close>

definition marker_pair :: "span \<times> span \<Rightarrow> bool" where
  "marker_pair p =
     (map token_text (fst p) = [''<e1>''] \<and> map token_text (snd p) = [''<e2>''] \<or>
      map token_text (fst p) = [''<e2>''] \<and> map token_text (snd p) = [''<e1>''])"

text \<open>
  The candidates as the specification lists them: for every ordered pair of span labels
  of a sentence whose spans are different objects, skipped when an allow-list is set and the pair of
  types is not in it; the label is the gold value when the gold index has the position
  key of the pair, the pair is skipped in gold-only mode otherwise, and the label is
  \<open>O\<close> else. A candidate is its sentence, the two spans and the label.
\<close>

definition allowed_pair :: "'a relation_extractor \<Rightarrow> span_label \<Rightarrow> span_label \<Rightarrow> bool" where
  "allowed_pair m a b =
     (case use_entity_pairs m of
        None \<Rightarrow> True
      | Some pairs \<Rightarrow> (span_value a, span_value b) \<in> pairs)"

definition gold_or_default ::
  "(span \<Rightarrow> string) \<Rightarrow> 'a relation_extractor \<Rightarrow> sentence_data \<Rightarrow> span \<Rightarrow> span \<Rightarrow> string list" where
  "gold_or_default id_text m sent span_1 span_2 =
     (case make_relation_dict id_text (get_relation_labels sent (label_type m))
             (create_position_string id_text span_1 span_2) of
        Some relation_label \<Rightarrow> [relation_value relation_label]
      | None \<Rightarrow> if use_gold_spans m then [] else [''O''])"

definition spec_candidates ::
  "(span \<Rightarrow> string) \<Rightarrow> 'a relation_extractor \<Rightarrow> sentence_data \<Rightarrow>
   (sentence_data \<times> span \<times> span \<times> string) list" where
  "spec_candidates id_text m sent =
     [(sent, span_of a, span_of b, label).
        a \<leftarrow> get_span_labels sent (span_label_type m),
        b \<leftarrow> get_span_labels sent (span_label_type m),
        span_address a \<noteq> span_address b,
        allowed_pair m a b,
        label \<leftarrow> gold_or_default id_text m sent (span_of a) (span_of b)]"

definition pair_candidates ::
  "(span \<Rightarrow> string) \<Rightarrow> 'a relation_extractor \<Rightarrow> sentence_data \<Rightarrow> span_label \<Rightarrow> span_label \<Rightarrow>
   (sentence_data \<times> span \<times> span \<times> string) list" where
  "pair_candidates id_text m sent a b =
     (if span_address a \<noteq> span_address b
      then if allowed_pair m a b
           then map (\<lambda>label. (sent, span_of a, span_of b, label))
                  (gold_or_default id_text m sent (span_of a) (span_of b))
           else []
      else [])"

text \<open>
  The full ordered cross product of the spans of a list of span labels without the
  self-pairs, in nested iteration order: the first span from the outer loop over the
  list, the second from the inner loop over the same list, a pair left out when both
  are the same \<^verbatim>\<open>Span\<close> object.
\<close>

definition ordered_pairs :: "span_label list \<Rightarrow> (span \<times> span) list" where
  "ordered_pairs S =
     [(span_of a, span_of b). a \<leftarrow> S, b \<leftarrow> S, span_address a \<noteq> span_address b]"

definition batch_candidates ::
  "(span \<Rightarrow> string) \<Rightarrow> 'a relation_extractor \<Rightarrow> sentence_data list \<Rightarrow>
   (sentence_data \<times> span \<times> span \<times> string) list" where
  "batch_candidates id_text m sentences = concat (map (spec_candidates id_text m) sentences)"

text \<open>
  The lists of \<open>forward_pass\<close> hold the candidates \<open>cands\<close>, position by position: the
  labels, the entity pairs (the spans themselves or, with entity markers, what
  \<open>add_entity_markers\<close> returned for the candidate at the address it was given), and in
  prediction the label candidates and their sentences.
\<close>

definition aligned ::
  "'a relation_extractor \<Rightarrow> bool \<Rightarrow> sentence_data list \<Rightarrow> nat \<Rightarrow>
   (sentence_data \<times> span \<times> span \<times> string) list \<Rightarrow> forward_lists \<Rightarrow> bool" where
  "aligned m rlc sentences ref cands st =
     (labels st = map (\<lambda>(s, a, b, l). [l]) cands
      \<and> (if use_entity_markers m
          then next_ref st = ref + length cands
             \<and> length (sentences_to_embed st) = length cands
             \<and> length (entity_pairs st) = length cands
             \<and> list_all (\<lambda>i. case cands ! i of (s, a, b, l) \<Rightarrow>
                   add_entity_markers (ref + i) s a b =
                     Inr (sentences_to_embed st ! i, entity_pairs st ! i))
                 [0..<length cands]
          else next_ref st = ref
             \<and> sentences_to_embed st = sentences
             \<and> entity_pairs st = map (\<lambda>(s, a, b, l). (a, b)) cands)
      \<and> (if rlc
          then empty_label_candidates st =
                 map (\<lambda>(s, a, b, l). \<lparr> candidate_head = a, candidate_tail = b \<rparr>) cands
             \<and> sentences_to_label st = map (\<lambda>(s, a, b, l). sentence (hd a)) cands
             \<and> list_all (\<lambda>(s, a, b, l). a \<noteq> []) cands
          else empty_label_candidates st = [] \<and> sentences_to_label st = []))"

text \<open>
  The embedding stage. \<open>embedded_chunks\<close> are the chunks a call embeds, one per round of
  its loop; \<open>later_calls\<close> are the provider calls of the rounds after the first;
  \<open>pair_vector\<close> is the concatenation of the embeddings of the first tokens of the two
  spans of an entity pair, and \<open>chunk_vectors\<close> the vectors one round appends for its
  chunk.
\<close>

definition embedded_chunks ::
  "'a relation_extractor \<Rightarrow> sentence_data list list \<Rightarrow> (span \<times> span) list list \<Rightarrow>
   sentence_data list list" where
  "embedded_chunks m sentence_embed_steps entity_pairs_steps =
     (if embeddings_class (embeddings m) = TransformerDocumentEmbeddings
      then sentence_embed_steps
      else map fst (zip sentence_embed_steps entity_pairs_steps))"

definition later_calls :: "sentence_data list list \<Rightarrow> provider_call list" where
  "later_calls cs = concat (map (\<lambda>c. [Eval, Embed False c]) cs)"

definition pair_vector :: "'a embeddings \<Rightarrow> bool \<Rightarrow> span \<times> span \<Rightarrow> 'a list" where
  "pair_vector e b entity_pair =
     token_embedding e b (hd (fst entity_pair)) @ token_embedding e b (hd (snd entity_pair))"

definition chunk_vectors ::
  "'a relation_extractor \<Rightarrow> bool \<Rightarrow> sentence_data list \<times> (span \<times> span) list \<Rightarrow> 'a list list" where
  "chunk_vectors m b steps =
     (if embeddings_class (embeddings m) = TransformerDocumentEmbeddings
      then map (sentence_embedding (embeddings m) b) (fst steps)
      else map (pair_vector (embeddings m) b) (snd steps))"

text \<open>
  The relation representation of candidate number \<open>i\<close> of a batch of \<open>n_sentences\<close>
  sentences: with entity markers, the document embedding of the rewritten sentence for
  a provider of whole-document embeddings and the vector of the pair of marker spans
  otherwise; without entity markers the vector of the pair \<open>(span_1, span_2)\<close>. With
  entity markers the candidates from number \<open>4 * n_sentences\<close> on are embedded in
  evaluation mode. \<open>decode_row\<close> is what the dropout layer and the decoder make of row
  number \<open>i\<close>.
\<close>

definition candidate_vector ::
  "'a relation_extractor \<Rightarrow> nat \<Rightarrow> nat \<Rightarrow> nat \<Rightarrow>
   sentence_data \<times> span \<times> span \<times> string \<Rightarrow> 'a list" where
  "candidate_vector m n_sentences ref i cand =
     (case cand of
        (s, span_1, span_2, label) \<Rightarrow>
          let e = embeddings m;
              b = (if use_entity_markers m \<and> 4 * n_sentences \<le> i then False
                   else emb_training e)
          in if use_entity_markers m
             then (case add_entity_markers (ref + i) s span_1 span_2 of
                     Inl err \<Rightarrow> []
                   | Inr (expanded_sentence, expanded_entities) \<Rightarrow>
                       if embeddings_class e = TransformerDocumentEmbeddings
                       then sentence_embedding e b expanded_sentence
                       else pair_vector e b expanded_entities)
             else pair_vector e b (span_1, span_2))"

definition decode_row :: "'a relation_extractor \<Rightarrow> nat \<Rightarrow> 'a list \<Rightarrow> error + 'a list list" where
  "decode_row m i row = decode m [map (\<lambda>(j, x). dropout m i j x) (enumerate 0 row)]"

section \<open>Example inputs\<close>

definition Token :: "nat \<Rightarrow> string \<Rightarrow> token" where
  "Token i w = \<lparr> idx = i, token_text = w, sentence = 0 \<rparr>"

definition plain_sentence :: "token list \<Rightarrow> sentence_data" where
  "plain_sentence ts = \<lparr> tokens = ts, get_relation_labels = (\<lambda>_. []), get_span_labels = (\<lambda>_. []) \<rparr>"

text \<open>
  A sentence "A B C D" at address 0 with the gold relation \<open>born_in\<close> from B to D under
  the label type \<open>relation\<close> and the given span labels under the label type \<open>ner\<close>; span
  labels, each over a \<^verbatim>\<open>Span\<close> object of its own; a provider whose vectors have length 1;
  layers with fixed weights and a dropout that keeps every entry; a model built by the
  constructor with both label types set.
\<close>

definition example_id_text :: "span \<Rightarrow> string" where
  "example_id_text sp = concat (map token_text sp)"

definition example_sentence :: "span_label list \<Rightarrow> sentence_data" where
  "example_sentence span_labels =
     \<lparr> tokens = [Token 1 ''A'', Token 2 ''B'', Token 3 ''C'', Token 4 ''D''],
       get_relation_labels =
         (\<lambda>typename. if typename = Some ''relation''
            then [\<lparr> head = [Token 2 ''B''], tail = [Token 4 ''D''],
                    relation_value = ''born_in'' \<rparr>]
            else []),
       get_span_labels = (\<lambda>typename. if typename = Some ''ner'' then span_labels else []) \<rparr>"

definition span_B :: span_label where
  "span_B = \<lparr> span_of = [Token 2 ''B''], span_address = 1, span_value = ''PER'' \<rparr>"

definition span_D :: span_label where
  "span_D = \<lparr> span_of = [Token 4 ''D''], span_address = 2, span_value = ''LOC'' \<rparr>"

definition span_A :: span_label where
  "span_A = \<lparr> span_of = [Token 1 ''A''], span_address = 3, span_value = ''LOC'' \<rparr>"

definition example_embeddings :: "embeddings_class \<Rightarrow> int embeddings" where
  "example_embeddings c =
     \<lparr> embeddings_class = c, embedding_length = 1,
       sentence_embedding = (\<lambda>b s. [int (length (tokens s))]),
       token_embedding = (\<lambda>b t. [int (idx t)]),
       emb_training = True, calls = [] \<rparr>"

definition example_layers :: "int layers" where
  "example_layers =
     \<lparr> decoder_weights = (\<lambda>row j. sum_list row + int j),
       decoder_1_weights = (\<lambda>row j. sum_list row),
       decoder_2_weights = (\<lambda>row j. sum_list row),
       rectifier = (\<lambda>x. max 0 x),
       dropout_layer = (\<lambda>i j x. x) \<rparr>"

definition example_args :: "embeddings_class \<Rightarrow> bool \<Rightarrow> string \<Rightarrow> int init_args" where
  "example_args c markers pooling =
     (default_init_args (example_embeddings c) [''born_in''])
       \<lparr> arg_label_type := Some ''relation'', arg_span_label_type := Some ''ner'',
         arg_use_entity_markers := markers, arg_pooling_operation := pooling \<rparr>"

definition example_model :: "embeddings_class \<Rightarrow> bool \<Rightarrow> string \<Rightarrow> int relation_extractor" where
  "example_model c markers pooling =
     projr (RelationExtractor example_layers (example_args c markers pooling))"

text \<open>The example model in gold-only mode, and with a loss weight for \<open>born_in\<close>.\<close>

definition example_gold_args :: "int init_args" where
  "example_gold_args = (example_args TokenEmbeddings False ''first'') \<lparr> arg_use_gold_spans := True \<rparr>"

definition example_weight_args :: "int init_args" where
  "example_weight_args =
     example_gold_args \<lparr> arg_loss_weights := Some (Weights_dict [(''born_in'', 2)]) \<rparr>"

text \<open>
  A second label on the \<^verbatim>\<open>Span\<close> object of \<open>span_B\<close>, and a label on another \<^verbatim>\<open>Span\<close>
  object over the same token.
\<close>

definition span_B_again :: span_label where
  "span_B_again = \<lparr> span_of = [Token 2 ''B''], span_address = 1, span_value = ''ORG'' \<rparr>"

definition span_B_copy :: span_label where
  "span_B_copy = \<lparr> span_of = [Token 2 ''B''], span_address = 4, span_value = ''ORG'' \<rparr>"

section \<open>Loops and re-tokenization\<close>

lemma for_each_append:
  "for_each body (xs @ ys) s =
     (case for_each body xs s of Inl e \<Rightarrow> Inl e | Inr s' \<Rightarrow> for_each body ys s')"
  by (induction xs arbitrary: s) (auto split: sum.splits)

lemma spaced_append: "spaced (xs @ ys) = spaced xs @ spaced ys"
  by (simp add: spaced_def)

lemma space_tokenize_word:
  "CHR '' '' \<notin> set w \<Longrightarrow> space_tokenize acc (w @ rest) = space_tokenize (acc @ w) rest"
  by (induction w arbitrary: acc) auto

lemma space_tokenize_spaced_aux:
  "plain_word w \<Longrightarrow> list_all plain_word ws \<Longrightarrow> space_tokenize [] (w @ spaced ws) = w # ws"
proof (induction ws arbitrary: w)
  case Nil
  then show ?case
    using space_tokenize_word [of w "[]" "[]"] by (simp add: spaced_def plain_word_def)
next
  case (Cons v vs)
  have "space_tokenize [] (w @ spaced (v # vs)) = space_tokenize w (CHR '' '' # v @ spaced vs)"
    using Cons.prems(1) space_tokenize_word [of w "[]"] by (simp add: spaced_def plain_word_def)
  also have "\<dots> = w # space_tokenize [] (v @ spaced vs)"
    using Cons.prems(1) by (simp add: plain_word_def)
  also have "\<dots> = w # v # vs"
    using Cons.IH [of v] Cons.prems(2) by simp
  finally show ?case .
qed

lemma space_tokenize_spaced:
  "list_all plain_word ws \<Longrightarrow> space_tokenize [] (spaced ws) = ws"
proof (cases ws)
  case Nil
  then show ?thesis by (simp add: spaced_def)
next
  case (Cons v vs)
  assume "list_all plain_word ws"
  then show ?thesis
    using Cons space_tokenize_spaced_aux [of v vs] by (simp add: spaced_def)
qed

lemma Sentence_texts: "map token_text (tokens (Sentence ref txt)) = space_tokenize [] txt"
  by (simp add: Sentence_def map_idI enumerate_eq_zip comp_def split_def)

lemma sentence_words_simps:
  "sentence_words s1 s2 [] = []"
  "sentence_words s1 s2 (t # ts) = token_words s1 s2 t @ sentence_words s1 s2 ts"
  "sentence_words s1 s2 (xs @ ys) = sentence_words s1 s2 xs @ sentence_words s1 s2 ys"
  by (simp_all add: sentence_words_def)

lemma marker_body_effect:
  assumes "span_1 \<noteq> []" "span_2 \<noteq> []"
  shows "\<exists>st'. marker_body span_1 span_2 tok st = Inr st'
    \<and> text_str st' = text_str st @ spaced (token_words span_1 span_2 tok)
    \<and> offset st' = offset st + length (token_words span_1 span_2 tok)
    \<and> span_1_startid st' =
        (if tok = hd span_1 then Some (offset st + (if tok = hd span_2 then 1 else 0) + 1)
         else span_1_startid st)
    \<and> span_2_startid st' = (if tok = hd span_2 then Some (offset st + 1) else span_2_startid st)
    \<and> entity_one_is_first st' =
        (case entity_one_is_first st of
           Some b \<Rightarrow> Some b
         | None \<Rightarrow> if tok = hd span_2 then Some False
                   else if tok = hd span_1 then Some True else None)"
  using assms
  by (cases "entity_one_is_first st")
     (simp_all add: marker_body_def token_words_def spaced_def Let_def)

lemma marker_loop_effect:
  assumes "span_1 \<noteq> []" "span_2 \<noteq> []"
  shows "\<exists>st'. for_each (marker_body span_1 span_2) ts st = Inr st'
    \<and> text_str st' = text_str st @ spaced (sentence_words span_1 span_2 ts)
    \<and> offset st' = offset st + length (sentence_words span_1 span_2 ts)
    \<and> (hd span_1 \<notin> set ts \<longrightarrow> span_1_startid st' = span_1_startid st)
    \<and> (hd span_2 \<notin> set ts \<longrightarrow> span_2_startid st' = span_2_startid st)
    \<and> (hd span_1 \<notin> set ts \<and> hd span_2 \<notin> set ts \<longrightarrow>
          entity_one_is_first st' = entity_one_is_first st)
    \<and> (entity_one_is_first st \<noteq> None \<longrightarrow> entity_one_is_first st' = entity_one_is_first st)"
proof (induction ts arbitrary: st)
  case Nil
  show ?case by (simp add: sentence_words_simps spaced_def)
next
  case (Cons t ts)
  obtain st1 where b: "marker_body span_1 span_2 t st = Inr st1"
    and t1: "text_str st1 = text_str st @ spaced (token_words span_1 span_2 t)"
    and o1: "offset st1 = offset st + length (token_words span_1 span_2 t)"
    and s1: "span_1_startid st1 =
        (if t = hd span_1 then Some (offset st + (if t = hd span_2 then 1 else 0) + 1)
         else span_1_startid st)"
    and s2: "span_2_startid st1 = (if t = hd span_2 then Some (offset st + 1) else span_2_startid st)"
    and e1: "entity_one_is_first st1 =
        (case entity_one_is_first st of
           Some b \<Rightarrow> Some b
         | None \<Rightarrow> if t = hd span_2 then Some False
                   else if t = hd span_1 then Some True else None)"
    using marker_body_effect [OF assms, of t st] by blast
  obtain st' where l: "for_each (marker_body span_1 span_2) ts st1 = Inr st'"
    and t2: "text_str st' = text_str st1 @ spaced (sentence_words span_1 span_2 ts)"
    and o2: "offset st' = offset st1 + length (sentence_words span_1 span_2 ts)"
    and s1': "hd span_1 \<notin> set ts \<longrightarrow> span_1_startid st' = span_1_startid st1"
    and s2': "hd span_2 \<notin> set ts \<longrightarrow> span_2_startid st' = span_2_startid st1"
    and e2: "hd span_1 \<notin> set ts \<and> hd span_2 \<notin> set ts \<longrightarrow>
          entity_one_is_first st' = entity_one_is_first st1"
    and e3: "entity_one_is_first st1 \<noteq> None \<longrightarrow> entity_one_is_first st' = entity_one_is_first st1"
    using Cons.IH [of st1] by blast
  have "for_each (marker_body span_1 span_2) (t # ts) st = Inr st'"
    using b l by simp
  moreover have "text_str st' = text_str st @ spaced (sentence_words span_1 span_2 (t # ts))"
    using t1 t2 by (simp add: sentence_words_simps spaced_append)
  moreover have "offset st' = offset st + length (sentence_words span_1 span_2 (t # ts))"
    using o1 o2 by (simp add: sentence_words_simps)
  moreover have "hd span_1 \<notin> set (t # ts) \<longrightarrow> span_1_startid st' = span_1_startid st"
    using s1 s1' by auto
  moreover have "hd span_2 \<notin> set (t # ts) \<longrightarrow> span_2_startid st' = span_2_startid st"
    using s2 s2' by auto
  moreover have "hd span_1 \<notin> set (t # ts) \<and> hd span_2 \<notin> set (t # ts) \<longrightarrow>
          entity_one_is_first st' = entity_one_is_first st"
    using e1 e2 by (auto split: option.splits)
  moreover have "entity_one_is_first st \<noteq> None \<longrightarrow> entity_one_is_first st' = entity_one_is_first st"
    using e1 e3 by (auto split: option.splits)
  ultimately show ?case by blast
qed

lemma marker_loop_at:
  assumes ne: "span_1 \<noteq> []" "span_2 \<noteq> []"
    and run: "for_each (marker_body span_1 span_2) (P @ t # Q) st = Inr st'"
  shows "t = hd span_1 \<Longrightarrow> hd span_1 \<notin> set Q \<Longrightarrow>
           span_1_startid st' =
             Some (offset st + length (sentence_words span_1 span_2 P)
                   + (if t = hd span_2 then 1 else 0) + 1)"
    and "t = hd span_2 \<Longrightarrow> hd span_2 \<notin> set Q \<Longrightarrow>
           span_2_startid st' = Some (offset st + length (sentence_words span_1 span_2 P) + 1)"
    and "entity_one_is_first st = None \<Longrightarrow> hd span_1 \<notin> set P \<Longrightarrow> hd span_2 \<notin> set P \<Longrightarrow>
           t = hd span_1 \<or> t = hd span_2 \<Longrightarrow>
           entity_one_is_first st' = Some (t \<noteq> hd span_2)"
proof -
  obtain stP where p: "for_each (marker_body span_1 span_2) P st = Inr stP"
    and pO: "offset stP = offset st + length (sentence_words span_1 span_2 P)"
    and pE: "hd span_1 \<notin> set P \<and> hd span_2 \<notin> set P \<longrightarrow>
          entity_one_is_first stP = entity_one_is_first st"
    using marker_loop_effect [OF ne, of P st] by blast
  obtain stT where b: "marker_body span_1 span_2 t stP = Inr stT"
    and s1: "span_1_startid stT =
        (if t = hd span_1 then Some (offset stP + (if t = hd span_2 then 1 else 0) + 1)
         else span_1_startid stP)"
    and s2: "span_2_startid stT = (if t = hd span_2 then Some (offset stP + 1) else span_2_startid stP)"
    and e1: "entity_one_is_first stT =
        (case entity_one_is_first stP of
           Some b \<Rightarrow> Some b
         | None \<Rightarrow> if t = hd span_2 then Some False
                   else if t = hd span_1 then Some True else None)"
    using marker_body_effect [OF ne, of t stP] by blast
  obtain stQ where q: "for_each (marker_body span_1 span_2) Q stT = Inr stQ"
    and q1: "hd span_1 \<notin> set Q \<longrightarrow> span_1_startid stQ = span_1_startid stT"
    and q2: "hd span_2 \<notin> set Q \<longrightarrow> span_2_startid stQ = span_2_startid stT"
    and qE: "entity_one_is_first stT \<noteq> None \<longrightarrow> entity_one_is_first stQ = entity_one_is_first stT"
    using marker_loop_effect [OF ne, of Q stT] by blast
  have eq: "st' = stQ"
    using run p b q by (simp add: for_each_append)
  show "t = hd span_1 \<Longrightarrow> hd span_1 \<notin> set Q \<Longrightarrow>
           span_1_startid st' =
             Some (offset st + length (sentence_words span_1 span_2 P)
                   + (if t = hd span_2 then 1 else 0) + 1)"
    using eq q1 s1 pO by simp
  show "t = hd span_2 \<Longrightarrow> hd span_2 \<notin> set Q \<Longrightarrow>
           span_2_startid st' = Some (offset st + length (sentence_words span_1 span_2 P) + 1)"
    using eq q2 s2 pO by simp
  show "entity_one_is_first st = None \<Longrightarrow> hd span_1 \<notin> set P \<Longrightarrow> hd span_2 \<notin> set P \<Longrightarrow>
           t = hd span_1 \<or> t = hd span_2 \<Longrightarrow>
           entity_one_is_first st' = Some (t \<noteq> hd span_2)"
    using eq qE e1 pE by auto
qed

lemma sentence_words_plain:
  "\<forall>t \<in> set ts. t \<noteq> hd s1 \<and> t \<noteq> last s1 \<and> t \<noteq> hd s2 \<and> t \<noteq> last s2 \<Longrightarrow>
   sentence_words s1 s2 ts = map token_text ts"
  by (induction ts) (simp_all add: sentence_words_simps token_words_def)

lemma span_shape:
  assumes "s \<noteq> []"
  shows "(\<exists>t. s = [t]) \<or> (\<exists>h m l. s = h # m @ [l])"
proof (cases s)
  case Nil
  then show ?thesis using assms by simp
next
  case (Cons h r)
  show ?thesis
  proof (cases r rule: rev_cases)
    case Nil
    then show ?thesis using Cons by simp
  next
    case (snoc m l)
    then show ?thesis using Cons by simp
  qed
qed

lemma sentence_words_span_1:
  assumes "s1 \<noteq> []" "distinct s1" "hd s2 \<notin> set s1" "last s2 \<notin> set s1"
  shows "sentence_words s1 s2 s1 = ''<e1>'' # map token_text s1 @ [''</e1>'']"
proof -
  from span_shape [OF assms(1)] show ?thesis
  proof (elim disjE exE)
    fix t assume "s1 = [t]"
    then show ?thesis using assms by (simp add: sentence_words_simps token_words_def)
  next
    fix h m l assume s: "s1 = h # m @ [l]"
    have m: "sentence_words s1 s2 m = map token_text m"
      using assms s by (intro sentence_words_plain) auto
    have h: "token_words s1 s2 h = [''<e1>'', token_text h]"
      using assms s by (auto simp: token_words_def)
    have l: "token_words s1 s2 l = [token_text l, ''</e1>'']"
      using assms s by (auto simp: token_words_def)
    have "sentence_words s1 s2 (h # m @ [l])
          = token_words s1 s2 h @ sentence_words s1 s2 m @ token_words s1 s2 l"
      by (simp add: sentence_words_simps)
    then show ?thesis using s m h l by simp
  qed
qed

lemma sentence_words_span_2:
  assumes "s2 \<noteq> []" "distinct s2" "hd s1 \<notin> set s2" "last s1 \<notin> set s2"
  shows "sentence_words s1 s2 s2 = ''<e2>'' # map token_text s2 @ [''</e2>'']"
proof -
  from span_shape [OF assms(1)] show ?thesis
  proof (elim disjE exE)
    fix t assume "s2 = [t]"
    then show ?thesis using assms by (simp add: sentence_words_simps token_words_def)
  next
    fix h m l assume s: "s2 = h # m @ [l]"
    have m: "sentence_words s1 s2 m = map token_text m"
      using assms s by (intro sentence_words_plain) auto
    have h: "token_words s1 s2 h = [''<e2>'', token_text h]"
      using assms s by (auto simp: token_words_def)
    have l: "token_words s1 s2 l = [token_text l, ''</e2>'']"
      using assms s by (auto simp: token_words_def)
    have "sentence_words s1 s2 (h # m @ [l])
          = token_words s1 s2 h @ sentence_words s1 s2 m @ token_words s1 s2 l"
      by (simp add: sentence_words_simps)
    then show ?thesis using s m h l by simp
  qed
qed

lemma marker_words_plain:
  "list_all plain_word (map token_text ts) \<Longrightarrow> list_all plain_word (sentence_words s1 s2 ts)"
  by (induction ts) (simp_all add: sentence_words_simps token_words_def plain_word_def)

lemma add_entity_markers_result:
  assumes ne: "span_1 \<noteq> []" "span_2 \<noteq> []"
    and plain: "list_all plain_word (map token_text (tokens sent))"
    and run: "marker_loop sent span_1 span_2 = Inr st"
    and i1: "span_1_startid st = Some (Suc k1)"
    and i2: "span_2_startid st = Some (Suc k2)"
    and w1: "k1 < length ws" "ws ! k1 = ''<e1>''"
    and w2: "k2 < length ws" "ws ! k2 = ''<e2>''"
    and ws: "ws = sentence_words span_1 span_2 (tokens sent)"
  shows "\<exists>es. add_entity_markers ref sent span_1 span_2 =
           Inr (es, if entity_one_is_first st = Some True
                    then ([tokens es ! k1], [tokens es ! k2])
                    else ([tokens es ! k2], [tokens es ! k1]))
         \<and> map token_text (tokens es) = ws"
proof -
  obtain st' where l: "for_each (marker_body span_1 span_2) (tokens sent) marker_scan_init = Inr st'"
    and t: "text_str st' = text_str marker_scan_init @ spaced (sentence_words span_1 span_2 (tokens sent))"
    using marker_loop_effect [OF ne, of "tokens sent" marker_scan_init] by blast
  have st: "st' = st" using l run by (simp add: marker_loop_def)
  have tx: "text_str st = spaced ws"
    using t st ws by (simp add: marker_scan_init_def)
  define es where "es = Sentence ref (text_str st)"
  have texts: "map token_text (tokens es) = ws"
    using marker_words_plain [OF plain, of span_1 span_2] ws
    by (simp add: es_def Sentence_texts tx space_tokenize_spaced)
  then have len: "length (tokens es) = length ws"
    by (metis length_map)
  have t1: "token_text (tokens es ! k1) = ''<e1>''"
    using texts w1 len by (metis nth_map)
  have t2: "token_text (tokens es ! k2) = ''<e2>''"
    using texts w2 len by (metis nth_map)
  have "add_entity_markers ref sent span_1 span_2 =
           Inr (es, if entity_one_is_first st = Some True
                    then ([tokens es ! k1], [tokens es ! k2])
                    else ([tokens es ! k2], [tokens es ! k1]))"
    using run i1 i2 w1(1) w2(1) len t1 t2
    by (simp add: add_entity_markers_def getitem_def es_def [symmetric] Let_def)
  then show ?thesis using texts by blast
qed

lemma add_entity_markers_span_1_first:
  assumes toks: "tokens sent = A @ span_1 @ B @ span_2 @ C"
    and ne: "span_1 \<noteq> []" "span_2 \<noteq> []"
    and dist: "distinct (tokens sent)"
    and plain: "list_all plain_word (map token_text (tokens sent))"
  shows "\<exists>es. add_entity_markers ref sent span_1 span_2 =
           Inr (es, ([tokens es ! length A],
                     [tokens es ! (length A + length span_1 + length B + 2)]))
         \<and> map token_text (tokens es) =
             map token_text A @ ''<e1>'' # map token_text span_1 @ ''</e1>'' #
             map token_text B @ ''<e2>'' # map token_text span_2 @ ''</e2>'' #
             map token_text C"
proof -
  define ws where "ws = sentence_words span_1 span_2 (tokens sent)"
  have d: "distinct A" "distinct span_1" "distinct B" "distinct span_2" "distinct C"
    "set A \<inter> set span_1 = {}" "set A \<inter> set span_2 = {}"
    "set B \<inter> set span_1 = {}" "set B \<inter> set span_2 = {}"
    "set C \<inter> set span_1 = {}" "set C \<inter> set span_2 = {}"
    "set span_1 \<inter> set span_2 = {}"
    using dist unfolding toks by auto
  have ends: "hd span_1 \<in> set span_1" "last span_1 \<in> set span_1"
    "hd span_2 \<in> set span_2" "last span_2 \<in> set span_2"
    using ne by simp_all
  have wA: "sentence_words span_1 span_2 A = map token_text A"
    using d ends by (intro sentence_words_plain) blast
  have wB: "sentence_words span_1 span_2 B = map token_text B"
    using d ends by (intro sentence_words_plain) blast
  have wC: "sentence_words span_1 span_2 C = map token_text C"
    using d ends by (intro sentence_words_plain) blast
  have w1: "sentence_words span_1 span_2 span_1 = ''<e1>'' # map token_text span_1 @ [''</e1>'']"
    using d ends ne by (intro sentence_words_span_1) blast+
  have w2: "sentence_words span_1 span_2 span_2 = ''<e2>'' # map token_text span_2 @ [''</e2>'']"
    using d ends ne by (intro sentence_words_span_2) blast+
  have ws_eq: "ws = map token_text A @ ''<e1>'' # map token_text span_1 @ ''</e1>'' #
             map token_text B @ ''<e2>'' # map token_text span_2 @ ''</e2>'' #
             map token_text C"
    by (simp add: ws_def toks sentence_words_simps wA wB wC w1 w2)
  obtain st where run: "marker_loop sent span_1 span_2 = Inr st"
    using marker_loop_effect [OF ne, of "tokens sent" marker_scan_init]
    by (auto simp: marker_loop_def)
  have s1: "span_1 = hd span_1 # tl span_1" and s2: "span_2 = hd span_2 # tl span_2"
    using ne by simp_all
  have l1: "tokens sent = A @ hd span_1 # (tl span_1 @ B @ span_2 @ C)"
    using ne by (simp add: toks)
  have l2: "tokens sent = (A @ span_1 @ B) @ hd span_2 # (tl span_2 @ C)"
    using ne by (simp add: toks)
  have run0: "for_each (marker_body span_1 span_2) (tokens sent) marker_scan_init = Inr st"
    using run by (simp add: marker_loop_def)
  have run1: "for_each (marker_body span_1 span_2)
                (A @ hd span_1 # (tl span_1 @ B @ span_2 @ C)) marker_scan_init = Inr st"
    using run0 by (simp only: l1)
  have run2: "for_each (marker_body span_1 span_2)
                ((A @ span_1 @ B) @ hd span_2 # (tl span_2 @ C)) marker_scan_init = Inr st"
    using run0 by (simp only: l2)
  have neq: "hd span_1 \<noteq> hd span_2"
    using d(12) ends(1,3) by auto
  have "distinct (hd span_1 # tl span_1)" "distinct (hd span_2 # tl span_2)"
    using d ne by simp_all
  then have t1: "hd span_1 \<notin> set (tl span_1)" and t2: "hd span_2 \<notin> set (tl span_2)"
    by simp_all
  have q1: "hd span_1 \<notin> set (tl span_1 @ B @ span_2 @ C)"
    using d(8,10,12) ends(1) t1 by auto
  have q2: "hd span_2 \<notin> set (tl span_2 @ C)"
    using d(11) ends(3) t2 by auto
  have pA1: "hd span_1 \<notin> set A" and pA2: "hd span_2 \<notin> set A"
    using d(6,7) ends(1,3) by auto
  have i1: "span_1_startid st = Some (Suc (length A))"
    using marker_loop_at(1) [OF ne run1 refl q1] neq wA
    by (simp add: marker_scan_init_def)
  have i2: "span_2_startid st = Some (Suc (length A + length span_1 + length B + 2))"
    using marker_loop_at(2) [OF ne run2 refl q2] wA wB w1
    by (simp add: marker_scan_init_def sentence_words_simps)
  have e: "entity_one_is_first st = Some True"
    using marker_loop_at(3) [OF ne run1 _ pA1 pA2] neq
    by (simp add: marker_scan_init_def)
  have k1: "length A < length ws" "ws ! length A = ''<e1>''"
    by (simp_all add: ws_eq nth_append)
  have k2: "length A + length span_1 + length B + 2 < length ws"
    "ws ! (length A + length span_1 + length B + 2) = ''<e2>''"
    by (simp_all add: ws_eq nth_append)
  show ?thesis
    using add_entity_markers_result [OF ne plain run i1 i2 k1 k2 ws_def, of ref] e ws_eq
    by simp
qed

lemma add_entity_markers_span_2_first:
  assumes toks: "tokens sent = A @ span_2 @ B @ span_1 @ C"
    and ne: "span_1 \<noteq> []" "span_2 \<noteq> []"
    and dist: "distinct (tokens sent)"
    and plain: "list_all plain_word (map token_text (tokens sent))"
  shows "\<exists>es. add_entity_markers ref sent span_1 span_2 =
           Inr (es, ([tokens es ! length A],
                     [tokens es ! (length A + length span_2 + length B + 2)]))
         \<and> map token_text (tokens es) =
             map token_text A @ ''<e2>'' # map token_text span_2 @ ''</e2>'' #
             map token_text B @ ''<e1>'' # map token_text span_1 @ ''</e1>'' #
             map token_text C"
proof -
  define ws where "ws = sentence_words span_1 span_2 (tokens sent)"
  have d: "distinct A" "distinct span_1" "distinct B" "distinct span_2" "distinct C"
    "set A \<inter> set span_1 = {}" "set A \<inter> set span_2 = {}"
    "set B \<inter> set span_1 = {}" "set B \<inter> set span_2 = {}"
    "set C \<inter> set span_1 = {}" "set C \<inter> set span_2 = {}"
    "set span_1 \<inter> set span_2 = {}"
    using dist unfolding toks by auto
  have ends: "hd span_1 \<in> set span_1" "last span_1 \<in> set span_1"
    "hd span_2 \<in> set span_2" "last span_2 \<in> set span_2"
    using ne by simp_all
  have wA: "sentence_words span_1 span_2 A = map token_text A"
    using d ends by (intro sentence_words_plain) blast
  have wB: "sentence_words span_1 span_2 B = map token_text B"
    using d ends by (intro sentence_words_plain) blast
  have wC: "sentence_words span_1 span_2 C = map token_text C"
    using d ends by (intro sentence_words_plain) blast
  have w1: "sentence_words span_1 span_2 span_1 = ''<e1>'' # map token_text span_1 @ [''</e1>'']"
    using d ends ne by (intro sentence_words_span_1) blast+
  have w2: "sentence_words span_1 span_2 span_2 = ''<e2>'' # map token_text span_2 @ [''</e2>'']"
    using d ends ne by (intro sentence_words_span_2) blast+
  have ws_eq: "ws = map token_text A @ ''<e2>'' # map token_text span_2 @ ''</e2>'' #
             map token_text B @ ''<e1>'' # map token_text span_1 @ ''</e1>'' #
             map token_text C"
    by (simp add: ws_def toks sentence_words_simps wA wB wC w1 w2)
  obtain st where run: "marker_loop sent span_1 span_2 = Inr st"
    using marker_loop_effect [OF ne, of "tokens sent" marker_scan_init]
    by (auto simp: marker_loop_def)
  have l1: "tokens sent = (A @ span_2 @ B) @ hd span_1 # (tl span_1 @ C)"
    using ne by (simp add: toks)
  have l2: "tokens sent = A @ hd span_2 # (tl span_2 @ B @ span_1 @ C)"
    using ne by (simp add: toks)
  have run0: "for_each (marker_body span_1 span_2) (tokens sent) marker_scan_init = Inr st"
    using run by (simp add: marker_loop_def)
  have run1: "for_each (marker_body span_1 span_2)
                ((A @ span_2 @ B) @ hd span_1 # (tl span_1 @ C)) marker_scan_init = Inr st"
    using run0 by (simp only: l1)
  have run2: "for_each (marker_body span_1 span_2)
                (A @ hd span_2 # (tl span_2 @ B @ span_1 @ C)) marker_scan_init = Inr st"
    using run0 by (simp only: l2)
  have neq: "hd span_1 \<noteq> hd span_2"
    using d(12) ends(1,3) by auto
  have "distinct (hd span_1 # tl span_1)" "distinct (hd span_2 # tl span_2)"
    using d ne by simp_all
  then have t1: "hd span_1 \<notin> set (tl span_1)" and t2: "hd span_2 \<notin> set (tl span_2)"
    by simp_all
  have q1: "hd span_1 \<notin> set (tl span_1 @ C)"
    using d(10) ends(1) t1 by auto
  have q2: "hd span_2 \<notin> set (tl span_2 @ B @ span_1 @ C)"
    using d(9,11,12) ends(3) t2 by auto
  have pA1: "hd span_1 \<notin> set A" and pA2: "hd span_2 \<notin> set A"
    using d(6,7) ends(1,3) by auto
  have i1: "span_1_startid st = Some (Suc (length A + length span_2 + length B + 2))"
    using marker_loop_at(1) [OF ne run1 refl q1] neq wA wB w2
    by (simp add: marker_scan_init_def sentence_words_simps)
  have i2: "span_2_startid st = Some (Suc (length A))"
    using marker_loop_at(2) [OF ne run2 refl q2] wA
    by (simp add: marker_scan_init_def)
  have e: "entity_one_is_first st = Some False"
    using marker_loop_at(3) [OF ne run2 _ pA1 pA2]
    by (simp add: marker_scan_init_def)
  have k2: "length A < length ws" "ws ! length A = ''<e2>''"
    by (simp_all add: ws_eq nth_append)
  have k1: "length A + length span_2 + length B + 2 < length ws"
    "ws ! (length A + length span_2 + length B + 2) = ''<e1>''"
    by (simp_all add: ws_eq nth_append)
  show ?thesis
    using add_entity_markers_result [OF ne plain run i1 i2 k1 k2 ws_def, of ref] e ws_eq
    by simp
qed

section \<open>C5: what add\_entity\_markers returns\<close>

text \<open>
  Claim C5, amended. Let the tokens of the sentence be distinct, each with a text that
  is not empty and holds no space, and let \<open>span_1\<close> and \<open>span_2\<close> be two
  contiguous stretches of the sentence that do not overlap. Then \<open>add_entity_markers\<close>
  returns; the texts of the tokens of the rewritten sentence are the texts of the
  original tokens with \<open><e1>\<close>, \<open></e1>\<close> around \<open>span_1\<close> and \<open><e2>\<close>, \<open></e2>\<close> around
  \<open>span_2\<close>, in the original order; and the returned pair holds the two one-token spans
  of the opening markers, \<open>(<e1>, <e2>)\<close> when \<open>span_1\<close> comes first in the sentence and
  \<open>(<e2>, <e1>)\<close> when \<open>span_2\<close> comes first. (Without the condition on the texts the
  claim fails: a token text with a space is split by the re-tokenization.)
\<close>

theorem add_entity_markers_marks_both_spans:
  assumes "span_1 \<noteq> []" and "span_2 \<noteq> []"
    and "distinct (tokens sent)"
    and "list_all plain_word (map token_text (tokens sent))"
  shows "(tokens sent = A @ span_1 @ B @ span_2 @ C \<longrightarrow>
          (\<exists>es e1 e2.
             add_entity_markers ref sent span_1 span_2 = Inr (es, ([e1], [e2]))
             \<and> e1 = tokens es ! length A \<and> token_text e1 = ''<e1>''
             \<and> e2 = tokens es ! (length A + length span_1 + length B + 2)
             \<and> token_text e2 = ''<e2>''
             \<and> map token_text (tokens es) =
                 map token_text A @ ''<e1>'' # map token_text span_1 @ ''</e1>'' #
                 map token_text B @ ''<e2>'' # map token_text span_2 @ ''</e2>'' #
                 map token_text C))
       \<and> (tokens sent = A @ span_2 @ B @ span_1 @ C \<longrightarrow>
          (\<exists>es e1 e2.
             add_entity_markers ref sent span_1 span_2 = Inr (es, ([e2], [e1]))
             \<and> e2 = tokens es ! length A \<and> token_text e2 = ''<e2>''
             \<and> e1 = tokens es ! (length A + length span_2 + length B + 2)
             \<and> token_text e1 = ''<e1>''
             \<and> map token_text (tokens es) =
                 map token_text A @ ''<e2>'' # map token_text span_2 @ ''</e2>'' #
                 map token_text B @ ''<e1>'' # map token_text span_1 @ ''</e1>'' #
                 map token_text C))"
proof (intro conjI impI)
  assume toks: "tokens sent = A @ span_1 @ B @ span_2 @ C"
  obtain es where r: "add_entity_markers ref sent span_1 span_2 =
           Inr (es, ([tokens es ! length A],
                     [tokens es ! (length A + length span_1 + length B + 2)]))"
    and t: "map token_text (tokens es) =
             map token_text A @ ''<e1>'' # map token_text span_1 @ ''</e1>'' #
             map token_text B @ ''<e2>'' # map token_text span_2 @ ''</e2>'' #
             map token_text C"
    using add_entity_markers_span_1_first [OF toks assms, of ref] by blast
  have len: "length (tokens es) = length A + length span_1 + length B + length span_2 + length C + 4"
    using arg_cong [OF t, of length] by simp
  have "map token_text (tokens es) ! length A = ''<e1>''"
    by (simp add: t nth_append)
  then have m1: "token_text (tokens es ! length A) = ''<e1>''"
    using len by (simp add: nth_map)
  have "map token_text (tokens es) ! (length A + length span_1 + length B + 2) = ''<e2>''"
    by (simp add: t nth_append)
  then have m2: "token_text (tokens es ! (length A + length span_1 + length B + 2)) = ''<e2>''"
    using len by (simp add: nth_map)
  show "\<exists>es e1 e2.
             add_entity_markers ref sent span_1 span_2 = Inr (es, ([e1], [e2]))
             \<and> e1 = tokens es ! length A \<and> token_text e1 = ''<e1>''
             \<and> e2 = tokens es ! (length A + length span_1 + length B + 2)
             \<and> token_text e2 = ''<e2>''
             \<and> map token_text (tokens es) =
                 map token_text A @ ''<e1>'' # map token_text span_1 @ ''</e1>'' #
                 map token_text B @ ''<e2>'' # map token_text span_2 @ ''</e2>'' #
                 map token_text C"
    using r t m1 m2 by blast
next
  assume toks: "tokens sent = A @ span_2 @ B @ span_1 @ C"
  obtain es where r: "add_entity_markers ref sent span_1 span_2 =
           Inr (es, ([tokens es ! length A],
                     [tokens es ! (length A + length span_2 + length B + 2)]))"
    and t: "map token_text (tokens es) =
             map token_text A @ ''<e2>'' # map token_text span_2 @ ''</e2>'' #
             map token_text B @ ''<e1>'' # map token_text span_1 @ ''</e1>'' #
             map token_text C"
    using add_entity_markers_span_2_first [OF toks assms, of ref] by blast
  have len: "length (tokens es) = length A + length span_2 + length B + length span_1 + length C + 4"
    using arg_cong [OF t, of length] by simp
  have "map token_text (tokens es) ! length A = ''<e2>''"
    by (simp add: t nth_append)
  then have m2: "token_text (tokens es ! length A) = ''<e2>''"
    using len by (simp add: nth_map)
  have "map token_text (tokens es) ! (length A + length span_2 + length B + 2) = ''<e1>''"
    by (simp add: t nth_append)
  then have m1: "token_text (tokens es ! (length A + length span_2 + length B + 2)) = ''<e1>''"
    using len by (simp add: nth_map)
  show "\<exists>es e1 e2.
             add_entity_markers ref sent span_1 span_2 = Inr (es, ([e2], [e1]))
             \<and> e2 = tokens es ! length A \<and> token_text e2 = ''<e2>''
             \<and> e1 = tokens es ! (length A + length span_2 + length B + 2)
             \<and> token_text e1 = ''<e1>''
             \<and> map token_text (tokens es) =
                 map token_text A @ ''<e2>'' # map token_text span_2 @ ''</e2>'' #
                 map token_text B @ ''<e1>'' # map token_text span_1 @ ''</e1>'' #
                 map token_text C"
    using r t m1 m2 by blast
qed

theorem add_entity_markers_marks_both_spans_witness:
  "(\<exists>es e1 e2.
      add_entity_markers 1
        (plain_sentence [Token 1 ''A'', Token 2 ''B'', Token 3 ''C'', Token 4 ''D''])
        [Token 2 ''B''] [Token 4 ''D''] = Inr (es, ([e1], [e2]))
      \<and> token_text e1 = ''<e1>'' \<and> token_text e2 = ''<e2>''
      \<and> map token_text (tokens es) =
          [''A'', ''<e1>'', ''B'', ''</e1>'', ''C'', ''<e2>'', ''D'', ''</e2>''])
   \<and> (\<exists>es e1 e2.
      add_entity_markers 1
        (plain_sentence [Token 1 ''A'', Token 2 ''B'', Token 3 ''C'', Token 4 ''D''])
        [Token 4 ''D''] [Token 2 ''B''] = Inr (es, ([e2], [e1]))
      \<and> token_text e1 = ''<e1>'' \<and> token_text e2 = ''<e2>''
      \<and> map token_text (tokens es) =
          [''A'', ''<e2>'', ''B'', ''</e2>'', ''C'', ''<e1>'', ''D'', ''</e1>''])"
proof -
  let ?s = "plain_sentence [Token 1 ''A'', Token 2 ''B'', Token 3 ''C'', Token 4 ''D'']"
  have d: "distinct (tokens ?s)"
    by (simp add: plain_sentence_def Token_def)
  have p: "list_all plain_word (map token_text (tokens ?s))"
    by (simp add: plain_sentence_def Token_def plain_word_def)
  have a: "tokens ?s = [Token 1 ''A''] @ [Token 2 ''B''] @ [Token 3 ''C''] @ [Token 4 ''D''] @ []"
    by (simp add: plain_sentence_def)
  have n: "[Token 2 ''B''] \<noteq> []" "[Token 4 ''D''] \<noteq> []"
    by simp_all
  have t: "map token_text [Token 1 ''A''] = [''A'']" "map token_text [Token 2 ''B''] = [''B'']"
    "map token_text [Token 3 ''C''] = [''C'']" "map token_text [Token 4 ''D''] = [''D'']"
    by (simp_all add: Token_def)
  note T1 = add_entity_markers_marks_both_spans
    [OF n d p, of "[Token 1 ''A'']" "[Token 3 ''C'']" "[]" 1, THEN conjunct1, rule_format, OF a]
  have first: "\<exists>es e1 e2.
      add_entity_markers 1 ?s [Token 2 ''B''] [Token 4 ''D''] = Inr (es, ([e1], [e2]))
      \<and> token_text e1 = ''<e1>'' \<and> token_text e2 = ''<e2>''
      \<and> map token_text (tokens es) =
          [''A'', ''<e1>'', ''B'', ''</e1>'', ''C'', ''<e2>'', ''D'', ''</e2>'']"
    using T1 unfolding t by auto
  note T2 = add_entity_markers_marks_both_spans
    [OF n(2) n(1) d p, of "[Token 1 ''A'']" "[Token 3 ''C'']" "[]" 1, THEN conjunct2, rule_format, OF a]
  have second: "\<exists>es e1 e2.
      add_entity_markers 1 ?s [Token 4 ''D''] [Token 2 ''B''] = Inr (es, ([e2], [e1]))
      \<and> token_text e1 = ''<e1>'' \<and> token_text e2 = ''<e2>''
      \<and> map token_text (tokens es) =
          [''A'', ''<e2>'', ''B'', ''</e2>'', ''C'', ''<e1>'', ''D'', ''</e1>'']"
    using T2 unfolding t by auto
  show ?thesis
    using first second by (rule conjI)
qed

theorem add_entity_markers_token_with_space_counterexample:
  "\<exists>es p.
     add_entity_markers 1
       (plain_sentence [Token 1 ''A'', Token 2 ''B'', Token 3 ''C'', Token 4 ''D D''])
       [Token 2 ''B''] [Token 4 ''D D''] = Inr (es, p)
     \<and> map token_text (tokens es) =
         [''A'', ''<e1>'', ''B'', ''</e1>'', ''C'', ''<e2>'', ''D'', ''D'', ''</e2>'']
     \<and> map token_text (tokens es) \<noteq>
         [''A'', ''<e1>'', ''B'', ''</e1>'', ''C'', ''<e2>'', ''D D'', ''</e2>'']"
  by (simp add: add_entity_markers_def marker_loop_def marker_body_def marker_scan_init_def
      Sentence_def getitem_def plain_sentence_def Token_def Let_def)

section \<open>Invariants of the candidate loops\<close>

lemmas example_defs = example_id_text_def example_sentence_def span_B_def span_D_def span_A_def
  example_embeddings_def example_layers_def example_model_def example_args_def Token_def
  RelationExtractor_def base_loss_weights_def default_init_args_def add_item_def
  relation_representation_length_def

lemmas generate_defs = generate_def sentence_body_def pair_body_def pair_label_def emit_pair_def
  make_relation_dict_def create_position_string_def

lemmas marker_defs = add_entity_markers_def marker_loop_def marker_body_def marker_scan_init_def
  Sentence_def getitem_def

lemmas embed_defs = embed_steps_def slices_def embed_all_def document_step_def token_step_def
  pair_embedding_def eval_mode_def train_mode_def embed_def stack_def apply_dropout_def
  decode_def linear_forward_def

lemma for_each_invariant:
  assumes "for_each body xs s = Inr s'" and "I s"
    and "\<And>x t t'. I t \<Longrightarrow> body x t = Inr t' \<Longrightarrow> I t'"
  shows "I s'"
  using assms(1,2)
proof (induction xs arbitrary: s)
  case Nil
  then show ?case by simp
next
  case (Cons x xs)
  then show ?case
    by (auto split: sum.splits intro: assms(3))
qed

lemma generate_invariant:
  assumes gen: "generate id_text m sentences rlc ref = Inr st"
    and init: "I \<lparr> empty_label_candidates = [], entity_pairs = [], labels = [],
         sentences_to_label = [],
         sentences_to_embed = (if use_entity_markers m then [] else sentences),
         next_ref = ref \<rparr>"
    and step: "\<And>sent span_1 span_2 label t t'.
       I t \<Longrightarrow> emit_pair m rlc sent span_1 span_2 label t = Inr t' \<Longrightarrow> I t'"
  shows "I st"
proof -
  have pair: "I t'" if "I t" "pair_body id_text m rlc sent d sl sl2 t = Inr t'"
    for sent d sl sl2 t t'
    using that step
    by (auto simp: pair_body_def Let_def split: if_splits option.splits)
  have inner: "I t'" if "I t" "for_each (pair_body id_text m rlc sent d sl) sls t = Inr t'"
    for sent d sl sls t t'
    using for_each_invariant [OF that(2), of I] that(1) pair by blast
  have outer: "I t'"
    if "I t" "for_each (\<lambda>sl. for_each (pair_body id_text m rlc sent d sl) sls) sls' t = Inr t'"
    for sent d sls sls' t t'
    using for_each_invariant [OF that(2), of I] that(1) inner by blast
  have sent: "I t'" if "I t" "sentence_body id_text m rlc sent t = Inr t'" for sent t t'
    using that outer by (simp add: sentence_body_def Let_def)
  show ?thesis
    using for_each_invariant [OF gen [unfolded generate_def], of I] init sent by blast
qed

lemma add_entity_markers_returns:
  assumes "add_entity_markers ref sent span_1 span_2 = Inr (es, p)"
  shows "\<exists>st i1 i2 t1 t2.
      marker_loop sent span_1 span_2 = Inr st \<and> es = Sentence ref (text_str st)
    \<and> span_1_startid st = Some i1 \<and> span_2_startid st = Some i2
    \<and> getitem (tokens es) (i1 - 1) = Inr t1 \<and> getitem (tokens es) (i2 - 1) = Inr t2
    \<and> token_text t1 = ''<e1>'' \<and> token_text t2 = ''<e2>''
    \<and> p = (if entity_one_is_first st = Some True then ([t1], [t2]) else ([t2], [t1]))"
  using assms
  by (auto simp: add_entity_markers_def Let_def split: sum.splits option.splits if_splits)

lemma add_entity_markers_marker_pair:
  "add_entity_markers ref sent span_1 span_2 = Inr (es, p) \<Longrightarrow> marker_pair p"
  by (drule add_entity_markers_returns) (auto simp: marker_pair_def split: if_splits)

lemma emit_pair_marker_pairs:
  assumes "use_entity_markers m" and "list_all marker_pair (entity_pairs t)"
    and "emit_pair m rlc sent span_1 span_2 label t = Inr t'"
  shows "list_all marker_pair (entity_pairs t')"
  using assms
  by (auto simp: emit_pair_def Let_def split: sum.splits if_splits list.splits
      dest: add_entity_markers_marker_pair)

lemma generate_marker_pairs:
  assumes "use_entity_markers m" and "generate id_text m sentences rlc ref = Inr st"
  shows "list_all marker_pair (entity_pairs st)"
  by (rule generate_invariant [OF assms(2), where I = "\<lambda>t. list_all marker_pair (entity_pairs t)"])
     (auto intro: emit_pair_marker_pairs [OF assms(1)])

lemma forward_pass_generate:
  "forward_pass id_text m sentences rlc ref = Inr r \<Longrightarrow>
   \<exists>st. generate id_text m sentences rlc ref = Inr st"
  by (auto simp: forward_pass_def split: sum.splits)

section \<open>C6: a misplaced marker ends the call\<close>

text \<open>
  Claim C6. When the scan has run and the token of the rewritten sentence at the
  computed position of \<open><e1>\<close> or of \<open><e2>\<close> is not that marker, \<open>add_entity_markers\<close>
  raises (NameError, from the undefined name \<open>asd\<close>) and returns nothing. So whenever
  \<open>forward_pass\<close> with entity markers returns, every entity pair it embedded is a pair
  of one-token spans whose tokens are \<open><e1>\<close> and \<open><e2>\<close>.
\<close>

theorem misplaced_marker_raises:
  "(marker_loop sent span_1 span_2 = Inr st
      \<and> span_1_startid st = Some i1 \<and> span_2_startid st = Some i2
      \<and> getitem (tokens (Sentence ref (text_str st))) (i1 - 1) = Inr t1
      \<and> getitem (tokens (Sentence ref (text_str st))) (i2 - 1) = Inr t2
      \<and> (token_text t1 \<noteq> ''<e1>'' \<or> token_text t2 \<noteq> ''<e2>'')
     \<longrightarrow> add_entity_markers ref sent span_1 span_2 = Inl NameError)
   \<and> (use_entity_markers m \<and> forward_pass id_text m sentences rlc ref' = Inr r
     \<longrightarrow> (\<exists>fl. generate id_text m sentences rlc ref' = Inr fl
              \<and> list_all marker_pair (entity_pairs fl)))"
proof (intro conjI impI)
  assume a: "marker_loop sent span_1 span_2 = Inr st
      \<and> span_1_startid st = Some i1 \<and> span_2_startid st = Some i2
      \<and> getitem (tokens (Sentence ref (text_str st))) (i1 - 1) = Inr t1
      \<and> getitem (tokens (Sentence ref (text_str st))) (i2 - 1) = Inr t2
      \<and> (token_text t1 \<noteq> ''<e1>'' \<or> token_text t2 \<noteq> ''<e2>'')"
  then show "add_entity_markers ref sent span_1 span_2 = Inl NameError"
    by (auto simp: add_entity_markers_def Let_def)
next
  assume b: "use_entity_markers m \<and> forward_pass id_text m sentences rlc ref' = Inr r"
  then obtain fl where "generate id_text m sentences rlc ref' = Inr fl"
    using forward_pass_generate by blast
  then show "\<exists>fl. generate id_text m sentences rlc ref' = Inr fl
              \<and> list_all marker_pair (entity_pairs fl)"
    using generate_marker_pairs b by blast
qed

theorem misplaced_marker_raises_witness:
  "add_entity_markers 1
     (plain_sentence [Token 1 ''A A'', Token 2 ''B'', Token 3 ''C'', Token 4 ''D''])
     [Token 2 ''B''] [Token 4 ''D''] = Inl NameError
   \<and> (\<exists>fl. generate example_id_text (example_model TokenEmbeddings True ''first'')
               [example_sentence [span_B, span_D]] False 10 = Inr fl
            \<and> list_all marker_pair (entity_pairs fl))"
proof -
  let ?s = "plain_sentence [Token 1 ''A A'', Token 2 ''B'', Token 3 ''C'', Token 4 ''D'']"
  let ?m = "example_model TokenEmbeddings True ''first''"
  have "\<exists>st i1 i2 t1 t2.
      marker_loop ?s [Token 2 ''B''] [Token 4 ''D''] = Inr st
      \<and> span_1_startid st = Some i1 \<and> span_2_startid st = Some i2
      \<and> getitem (tokens (Sentence 1 (text_str st))) (i1 - 1) = Inr t1
      \<and> getitem (tokens (Sentence 1 (text_str st))) (i2 - 1) = Inr t2
      \<and> (token_text t1 \<noteq> ''<e1>'' \<or> token_text t2 \<noteq> ''<e2>'')"
    by (simp add: marker_defs plain_sentence_def Token_def Let_def)
  then obtain st i1 i2 t1 t2 where h:
      "marker_loop ?s [Token 2 ''B''] [Token 4 ''D''] = Inr st
      \<and> span_1_startid st = Some i1 \<and> span_2_startid st = Some i2
      \<and> getitem (tokens (Sentence 1 (text_str st))) (i1 - 1) = Inr t1
      \<and> getitem (tokens (Sentence 1 (text_str st))) (i2 - 1) = Inr t2
      \<and> (token_text t1 \<noteq> ''<e1>'' \<or> token_text t2 \<noteq> ''<e2>'')"
    by blast
  have first: "add_entity_markers 1 ?s [Token 2 ''B''] [Token 4 ''D''] = Inl NameError"
    using misplaced_marker_raises [THEN conjunct1, rule_format, OF h] .
  have m: "use_entity_markers ?m"
    by (simp add: example_defs)
  have "\<exists>r. forward_pass example_id_text ?m [example_sentence [span_B, span_D]] False 10 = Inr r"
    by (simp add: forward_pass_def example_defs generate_defs marker_defs embed_defs Let_def)
  then obtain r where
    r: "forward_pass example_id_text ?m [example_sentence [span_B, span_D]] False 10 = Inr r"
    by blast
  have second: "\<exists>fl. generate example_id_text ?m [example_sentence [span_B, span_D]] False 10 = Inr fl
            \<and> list_all marker_pair (entity_pairs fl)"
    using misplaced_marker_raises [THEN conjunct2, rule_format, OF conjI [OF m r]] .
  show ?thesis
    using first second by (rule conjI)
qed

section \<open>C10: the persisted state\<close>

lemma constructed_model:
  assumes "RelationExtractor w a = Inr m"
  obtains weights where "base_loss_weights (arg_label_dictionary a) (arg_loss_weights a) = Inr weights"
    and "m = \<lparr> embeddings = arg_embeddings a,
                label_type = arg_label_type a,
                span_label_type = arg_span_label_type a,
                use_gold_spans = arg_use_gold_spans a,
                pooling_operation = arg_pooling_operation a,
                use_entity_markers = arg_use_entity_markers a,
                dropout_value = arg_dropout_value a,
                dropout = dropout_layer w,
                use_entity_pairs = arg_use_entity_pairs a,
                label_dictionary = add_item (arg_label_dictionary a) ''O'',
                loss_weights = weights,
                non_linear_decoder = arg_non_linear_decoder a,
                decoders =
                  (if arg_non_linear_decoder a
                   then Decoder_1_2
                          \<lparr> in_features = relation_representation_length (arg_embeddings a)
                                            (arg_pooling_operation a),
                            out_features = 1024,
                            unit_output = decoder_1_weights w \<rparr>
                          (rectifier w)
                          \<lparr> in_features = 1024,
                            out_features = length (add_item (arg_label_dictionary a) ''O''),
                            unit_output = decoder_2_weights w \<rparr>
                   else Decoder
                          \<lparr> in_features = relation_representation_length (arg_embeddings a)
                                            (arg_pooling_operation a),
                            out_features = length (add_item (arg_label_dictionary a) ''O''),
                            unit_output = decoder_weights w \<rparr>),
                training = True \<rparr>"
  using assms
  by (auto simp add: RelationExtractor_def Let_def split: sum.splits)

lemma add_item_twice: "add_item (add_item d x) x = add_item d x"
  by (simp add: add_item_def)

lemma restore_returns:
  fixes w w' :: "'a::{zero,one} layers"
  assumes "RelationExtractor w a = Inr m" and "loss_weights m = None"
  shows "init_model_with_state_dict w' (get_state_dict m) =
           Inr (m \<lparr> use_gold_spans := False, dropout := dropout_layer w' \<rparr>)"
proof -
  from assms(1) obtain weights where m: "m = \<lparr> embeddings = arg_embeddings a,
                label_type = arg_label_type a,
                span_label_type = arg_span_label_type a,
                use_gold_spans = arg_use_gold_spans a,
                pooling_operation = arg_pooling_operation a,
                use_entity_markers = arg_use_entity_markers a,
                dropout_value = arg_dropout_value a,
                dropout = dropout_layer w,
                use_entity_pairs = arg_use_entity_pairs a,
                label_dictionary = add_item (arg_label_dictionary a) ''O'',
                loss_weights = weights,
                non_linear_decoder = arg_non_linear_decoder a,
                decoders =
                  (if arg_non_linear_decoder a
                   then Decoder_1_2
                          \<lparr> in_features = relation_representation_length (arg_embeddings a)
                                            (arg_pooling_operation a),
                            out_features = 1024,
                            unit_output = decoder_1_weights w \<rparr>
                          (rectifier w)
                          \<lparr> in_features = 1024,
                            out_features = length (add_item (arg_label_dictionary a) ''O''),
                            unit_output = decoder_2_weights w \<rparr>
                   else Decoder
                          \<lparr> in_features = relation_representation_length (arg_embeddings a)
                                            (arg_pooling_operation a),
                            out_features = length (add_item (arg_label_dictionary a) ''O''),
                            unit_output = decoder_weights w \<rparr>),
                training = True \<rparr>"
    by (rule constructed_model)
  from assms(2) have n: "weights = None"
    unfolding m by simp
  show ?thesis
    unfolding m n
    by (simp add: init_model_with_state_dict_def restore_arguments_def get_state_dict_def
        load_state_dict_def RelationExtractor_def base_loss_weights_def default_init_args_def
        add_item_twice Let_def)
qed

lemma restore_raises:
  fixes w w' :: "'a::{zero,one} layers"
  assumes "RelationExtractor w a = Inr m" and "loss_weights m \<noteq> None"
  shows "init_model_with_state_dict w' (get_state_dict m) = Inl AttributeError"
proof -
  have "label_dictionary m = add_item (arg_label_dictionary a) ''O''"
    using assms(1) by (auto simp add: RelationExtractor_def Let_def split: sum.splits)
  then have "label_dictionary m \<noteq> []"
    by (auto simp add: add_item_def)
  then show ?thesis
    using assms(2)
    by (auto simp add: init_model_with_state_dict_def restore_arguments_def get_state_dict_def
        RelationExtractor_def base_loss_weights_def default_init_args_def)
qed

text \<open>
  Claim C10. For every model \<open>m\<close> the constructor returns: the state of \<open>get_state_dict\<close> has
  no entry for \<open>use_gold_spans\<close>, so the constructor call of \<open>init_model_with_state_dict\<close>
  gets the default \<open>False\<close> whatever the flag of \<open>m\<close> is, while the pooling operation, the
  dropout value, the entity pairs, the marker flag, the decoder flag, both label types,
  the label dictionary and the loss weights of \<open>m\<close> are saved and passed to the
  constructor. When \<open>m\<close> has no loss weights, which is the case exactly when none were
  given, the restore returns \<open>m\<close> with \<open>use_gold_spans\<close> reset to \<open>False\<close> (and the dropout
  layer of the new module). When \<open>m\<close> has loss weights, the saved value is the tensor of
  the base class, the constructor of the base class rejects it, and the restore raises:
  no model is restored.
\<close>

theorem restored_model_forgets_use_gold_spans:
  fixes w w' :: "'a::{zero,one} layers" and a :: "'a init_args"
  assumes "RelationExtractor w a = Inr m"
  shows "use_gold_spans m = arg_use_gold_spans a
     \<and> arg_use_gold_spans (restore_arguments (get_state_dict m)) = False
     \<and> arg_pooling_operation (restore_arguments (get_state_dict m)) = pooling_operation m
     \<and> arg_dropout_value (restore_arguments (get_state_dict m)) = dropout_value m
     \<and> arg_use_entity_pairs (restore_arguments (get_state_dict m)) = use_entity_pairs m
     \<and> arg_use_entity_markers (restore_arguments (get_state_dict m)) = use_entity_markers m
     \<and> arg_non_linear_decoder (restore_arguments (get_state_dict m)) = non_linear_decoder m
     \<and> arg_label_type (restore_arguments (get_state_dict m)) = label_type m
     \<and> arg_span_label_type (restore_arguments (get_state_dict m)) = span_label_type m
     \<and> arg_label_dictionary (restore_arguments (get_state_dict m)) = label_dictionary m
     \<and> arg_loss_weights (restore_arguments (get_state_dict m)) =
         map_option Weights_tensor (loss_weights m)
     \<and> arg_embeddings (restore_arguments (get_state_dict m)) = embeddings m
     \<and> (loss_weights m = None \<longleftrightarrow> arg_loss_weights a = None)
     \<and> (loss_weights m = None \<longrightarrow>
          init_model_with_state_dict w' (get_state_dict m) =
            Inr (m \<lparr> use_gold_spans := False, dropout := dropout_layer w' \<rparr>))
     \<and> (loss_weights m \<noteq> None \<longrightarrow>
          init_model_with_state_dict w' (get_state_dict m) = Inl AttributeError)"
proof -
  from assms obtain weights
    where b: "base_loss_weights (arg_label_dictionary a) (arg_loss_weights a) = Inr weights"
      and u: "use_gold_spans m = arg_use_gold_spans a" and l: "loss_weights m = weights"
    by (auto simp add: RelationExtractor_def Let_def split: sum.splits)
  have n: "loss_weights m = None \<longleftrightarrow> arg_loss_weights a = None"
    using b unfolding l
    by (auto simp add: base_loss_weights_def split: option.splits weights.splits if_splits)
  have r1: "loss_weights m = None \<longrightarrow>
          init_model_with_state_dict w' (get_state_dict m) =
            Inr (m \<lparr> use_gold_spans := False, dropout := dropout_layer w' \<rparr>)"
    using restore_returns [OF assms] by simp
  have r2: "loss_weights m \<noteq> None \<longrightarrow>
          init_model_with_state_dict w' (get_state_dict m) = Inl AttributeError"
    using restore_raises [OF assms, of w'] by simp
  show ?thesis
    by (intro conjI u n r1 r2)
      (simp_all add: restore_arguments_def get_state_dict_def default_init_args_def)
qed

theorem restored_model_forgets_use_gold_spans_witness:
  "RelationExtractor example_layers example_gold_args =
     Inr ((example_model TokenEmbeddings False ''first'') \<lparr> use_gold_spans := True \<rparr>)
   \<and> init_model_with_state_dict example_layers
        (get_state_dict ((example_model TokenEmbeddings False ''first'')
                           \<lparr> use_gold_spans := True \<rparr>)) =
       Inr (example_model TokenEmbeddings False ''first'')
   \<and> RelationExtractor example_layers example_weight_args =
       Inr ((example_model TokenEmbeddings False ''first'')
              \<lparr> use_gold_spans := True, loss_weights := Some [2] \<rparr>)
   \<and> state_loss_weights
        (get_state_dict ((example_model TokenEmbeddings False ''first'')
                           \<lparr> use_gold_spans := True, loss_weights := Some [2] \<rparr>)) = Some [2]
   \<and> init_model_with_state_dict example_layers
        (get_state_dict ((example_model TokenEmbeddings False ''first'')
                           \<lparr> use_gold_spans := True, loss_weights := Some [2] \<rparr>)) =
       Inl AttributeError"
proof -
  let ?m = "(example_model TokenEmbeddings False ''first'') \<lparr> use_gold_spans := True \<rparr>"
  let ?n = "(example_model TokenEmbeddings False ''first'')
              \<lparr> use_gold_spans := True, loss_weights := Some [2] \<rparr>"
  have c1: "RelationExtractor example_layers example_gold_args = Inr ?m"
    by (simp add: example_defs example_gold_args_def Let_def)
  have c2: "RelationExtractor example_layers example_weight_args = Inr ?n"
    by (simp add: example_defs example_gold_args_def example_weight_args_def Let_def)
  have l1: "loss_weights ?m = None"
    by (simp add: example_defs Let_def)
  have l2: "loss_weights ?n \<noteq> None"
    by simp
  have e: "?m \<lparr> use_gold_spans := False, dropout := dropout_layer example_layers \<rparr> =
      example_model TokenEmbeddings False ''first''"
    by (simp add: example_defs Let_def)
  note T1 = restored_model_forgets_use_gold_spans [OF c1, of example_layers]
  note T2 = restored_model_forgets_use_gold_spans [OF c2, of example_layers]
  have r1: "init_model_with_state_dict example_layers (get_state_dict ?m) =
      Inr (example_model TokenEmbeddings False ''first'')"
    using T1 l1 e by simp
  have r2: "init_model_with_state_dict example_layers (get_state_dict ?n) = Inl AttributeError"
    using T2 l2 by simp
  have s: "state_loss_weights (get_state_dict ?n) = Some [2]"
    by (simp add: get_state_dict_def)
  show ?thesis
    by (intro conjI c1 c2 r1 r2 s)
qed

section \<open>The candidate loops and the specified candidates\<close>

lemma for_each_accumulates:
  assumes "for_each body xs s = Inr s'" and "R c s"
    and "\<And>x c t t'. R c t \<Longrightarrow> body x t = Inr t' \<Longrightarrow> R (c @ g x) t'"
  shows "R (c @ concat (map g xs)) s'"
  using assms(1,2)
proof (induction xs arbitrary: s c)
  case Nil
  then show ?case by simp
next
  case (Cons x xs)
  from Cons.prems(1) obtain t where t: "body x s = Inr t" and r: "for_each body xs t = Inr s'"
    by (auto split: sum.splits)
  have "R (c @ g x) t"
    using assms(3) [OF Cons.prems(2) t] .
  from Cons.IH [OF r this] show ?case by simp
qed

lemma aligned_emit:
  assumes "aligned m rlc sentences ref cands st"
    and "emit_pair m rlc sent span_1 span_2 label st = Inr st'"
  shows "aligned m rlc sentences ref (cands @ [(sent, span_1, span_2, label)]) st'"
proof (cases "use_entity_markers m")
  case False
  then show ?thesis
    using assms
    by (auto simp: aligned_def emit_pair_def Let_def split: if_splits list.splits)
next
  case True
  from assms(2) True obtain es p where
    am: "add_entity_markers (next_ref st) sent span_1 span_2 = Inr (es, p)"
    by (auto simp: emit_pair_def split: sum.splits)
  have nr: "next_ref st = ref + length cands"
    and le: "length (sentences_to_embed st) = length cands"
    and lp: "length (entity_pairs st) = length cands"
    and old: "list_all (\<lambda>i. case cands ! i of (s, a, b, l) \<Rightarrow>
                   add_entity_markers (ref + i) s a b =
                     Inr (sentences_to_embed st ! i, entity_pairs st ! i))
                 [0..<length cands]"
    using assms(1) True by (simp_all add: aligned_def)
  have e': "sentences_to_embed st' = sentences_to_embed st @ [es]"
    and p': "entity_pairs st' = entity_pairs st @ [p]"
    and n': "next_ref st' = Suc (next_ref st)"
    and l': "labels st' = labels st @ [[label]]"
    using assms(2) True am
    by (auto simp: emit_pair_def Let_def split: if_splits list.splits)
  have new: "list_all (\<lambda>i. case (cands @ [(sent, span_1, span_2, label)]) ! i of (s, a, b, l) \<Rightarrow>
                   add_entity_markers (ref + i) s a b =
                     Inr (sentences_to_embed st' ! i, entity_pairs st' ! i))
                 [0..<length (cands @ [(sent, span_1, span_2, label)])]"
    using old am nr le lp
    by (auto simp: list_all_iff e' p' nth_append less_Suc_eq)
  have rest: "if rlc
          then empty_label_candidates st' =
                 map (\<lambda>(s, a, b, l). \<lparr> candidate_head = a, candidate_tail = b \<rparr>)
                   (cands @ [(sent, span_1, span_2, label)])
             \<and> sentences_to_label st' =
                 map (\<lambda>(s, a, b, l). sentence (hd a)) (cands @ [(sent, span_1, span_2, label)])
             \<and> list_all (\<lambda>(s, a, b, l). a \<noteq> []) (cands @ [(sent, span_1, span_2, label)])
          else empty_label_candidates st' = [] \<and> sentences_to_label st' = []"
    using assms True am
    by (auto simp: aligned_def emit_pair_def Let_def split: if_splits list.splits)
  show ?thesis
    using True new rest nr le lp e' p' n' l' assms(1)
    by (simp add: aligned_def)
qed

lemma spec_candidates_nested:
  "spec_candidates id_text m sent =
     concat (map (\<lambda>a. concat (map (pair_candidates id_text m sent a)
                                  (get_span_labels sent (span_label_type m))))
               (get_span_labels sent (span_label_type m)))"
  by (simp add: spec_candidates_def pair_candidates_def cong: map_cong)

lemma aligned_pair_body:
  assumes "aligned m rlc sentences ref cands st"
    and "pair_body id_text m rlc sent
           (make_relation_dict id_text (get_relation_labels sent (label_type m))) a b st = Inr st'"
  shows "aligned m rlc sentences ref (cands @ pair_candidates id_text m sent a b) st'"
proof (cases "span_address a \<noteq> span_address b \<and> allowed_pair m a b")
  case False
  then have "st' = st" "pair_candidates id_text m sent a b = []"
    using assms(2)
    by (auto simp: pair_body_def pair_candidates_def allowed_pair_def Let_def
        split: option.splits if_splits)
  then show ?thesis using assms(1) by simp
next
  case True
  show ?thesis
  proof (cases "pair_label id_text m
           (make_relation_dict id_text (get_relation_labels sent (label_type m)))
           (span_of a) (span_of b)")
    case None
    then have "gold_or_default id_text m sent (span_of a) (span_of b) = []"
      by (auto simp: pair_label_def gold_or_default_def Let_def split: option.splits if_splits)
    moreover have "st' = st"
      using assms(2) True None
      by (auto simp: pair_body_def allowed_pair_def Let_def split: option.splits if_splits)
    ultimately show ?thesis
      using assms(1) by (simp add: pair_candidates_def)
  next
    case (Some label)
    then have g: "gold_or_default id_text m sent (span_of a) (span_of b) = [label]"
      by (auto simp: pair_label_def gold_or_default_def Let_def split: option.splits if_splits)
    have "emit_pair m rlc sent (span_of a) (span_of b) label st = Inr st'"
      using assms(2) True Some
      by (auto simp: pair_body_def allowed_pair_def Let_def split: option.splits if_splits)
    from aligned_emit [OF assms(1) this] show ?thesis
      using True g by (simp add: pair_candidates_def)
  qed
qed

lemma aligned_sentence_body:
  assumes "aligned m rlc sentences ref cands st"
    and "sentence_body id_text m rlc sent st = Inr st'"
  shows "aligned m rlc sentences ref (cands @ spec_candidates id_text m sent) st'"
proof -
  let ?d = "make_relation_dict id_text (get_relation_labels sent (label_type m))"
  let ?S = "get_span_labels sent (span_label_type m)"
  have inner: "aligned m rlc sentences ref
                 (c @ concat (map (pair_candidates id_text m sent a) ?S)) t'"
    if "aligned m rlc sentences ref c t"
      and "for_each (pair_body id_text m rlc sent ?d a) ?S t = Inr t'" for a c t t'
    using for_each_accumulates [OF that(2), of "aligned m rlc sentences ref" c
        "pair_candidates id_text m sent a"] that(1) aligned_pair_body
    by blast
  have run: "for_each (\<lambda>a. for_each (pair_body id_text m rlc sent ?d a) ?S) ?S st = Inr st'"
    using assms(2) by (simp add: sentence_body_def Let_def)
  show ?thesis
    unfolding spec_candidates_nested
    using for_each_accumulates [OF run, of "aligned m rlc sentences ref" cands
        "\<lambda>a. concat (map (pair_candidates id_text m sent a) ?S)"] assms(1) inner
    by blast
qed

lemma generate_aligned:
  assumes "generate id_text m sentences rlc ref = Inr st"
  shows "aligned m rlc sentences ref (batch_candidates id_text m sentences) st"
proof -
  let ?init = "\<lparr> empty_label_candidates = [], entity_pairs = [], labels = [],
         sentences_to_label = [],
         sentences_to_embed = (if use_entity_markers m then [] else sentences),
         next_ref = ref \<rparr>"
  have i: "aligned m rlc sentences ref [] ?init"
    by (simp add: aligned_def)
  have run: "for_each (sentence_body id_text m rlc) sentences ?init = Inr st"
    using assms by (simp add: generate_def)
  show ?thesis
    unfolding batch_candidates_def
    using for_each_accumulates [OF run, of "aligned m rlc sentences ref" "[]"
        "spec_candidates id_text m"] i aligned_sentence_body
    by (metis append_Nil)
qed

section \<open>C2: the label of a candidate\<close>

lemma forward_pass_parts:
  assumes "forward_pass id_text m sentences rlc ref = Inr (r, e')"
  shows "\<exists>st. generate id_text m sentences rlc ref = Inr st
      \<and> result_labels r = labels st
      \<and> label_candidates r =
          (if rlc then Some (sentences_to_label st, empty_label_candidates st) else None)"
  using assms
  by (auto simp: forward_pass_def split: sum.splits if_splits prod.splits)

lemma gold_or_default_cases:
  "list_all (\<lambda>(s, a, b, l).
      case make_relation_dict id_text (get_relation_labels s (label_type m))
             (create_position_string id_text a b) of
        Some relation_label \<Rightarrow> l = relation_value relation_label
      | None \<Rightarrow> \<not> use_gold_spans m \<and> l = ''O'')
     (batch_candidates id_text m sentences)"
  by (auto simp: list_all_iff batch_candidates_def spec_candidates_def gold_or_default_def
      split: option.splits if_splits)

text \<open>
  Claim C2. When the candidate loops of \<open>forward_pass\<close> complete, the labels are those of
  the specified candidates, in their order, as are the label candidates (in prediction)
  and the entity pairs (without entity markers). For every candidate the label is the
  value of the gold relation when the gold index of its sentence holds the position key
  of \<open>(span_1, span_2)\<close>; otherwise gold-only mode is off and the label is \<open>O\<close> (in
  gold-only mode the pair is not among the candidates). \<open>forward_pass\<close> returns these
  labels.
\<close>

theorem labels_follow_gold_index:
  assumes "generate id_text m sentences rlc ref = Inr st"
  shows "labels st = map (\<lambda>(s, a, b, l). [l]) (batch_candidates id_text m sentences)
    \<and> (rlc \<longrightarrow> empty_label_candidates st =
          map (\<lambda>(s, a, b, l). \<lparr> candidate_head = a, candidate_tail = b \<rparr>)
            (batch_candidates id_text m sentences))
    \<and> (\<not> use_entity_markers m \<longrightarrow> entity_pairs st =
          map (\<lambda>(s, a, b, l). (a, b)) (batch_candidates id_text m sentences))
    \<and> list_all (\<lambda>(s, a, b, l).
          case make_relation_dict id_text (get_relation_labels s (label_type m))
                 (create_position_string id_text a b) of
            Some relation_label \<Rightarrow> l = relation_value relation_label
          | None \<Rightarrow> \<not> use_gold_spans m \<and> l = ''O'')
         (batch_candidates id_text m sentences)
    \<and> (\<forall>r e'. forward_pass id_text m sentences rlc ref = Inr (r, e') \<longrightarrow>
          result_labels r = labels st)"
proof -
  have a: "aligned m rlc sentences ref (batch_candidates id_text m sentences) st"
    using generate_aligned [OF assms] .
  have "\<forall>r e'. forward_pass id_text m sentences rlc ref = Inr (r, e') \<longrightarrow>
          result_labels r = labels st"
    using forward_pass_parts assms by fastforce
  then show ?thesis
    using a gold_or_default_cases [where id_text = id_text and m = m and sentences = sentences]
    by (simp add: aligned_def split: if_splits)
qed

lemmas spec_defs = batch_candidates_def spec_candidates_def gold_or_default_def allowed_pair_def
  make_relation_dict_def create_position_string_def

theorem labels_follow_gold_index_witness:
  "\<exists>st. generate example_id_text (example_model TokenEmbeddings False ''first'')
          [example_sentence [span_B, span_D, span_A]] True 10 = Inr st
     \<and> labels st = [[''born_in''], [''O''], [''O''], [''O''], [''O''], [''O'']]
     \<and> map (\<lambda>c. (candidate_head c, candidate_tail c)) (empty_label_candidates st) =
        [([Token 2 ''B''], [Token 4 ''D'']), ([Token 2 ''B''], [Token 1 ''A'']),
         ([Token 4 ''D''], [Token 2 ''B'']), ([Token 4 ''D''], [Token 1 ''A'']),
         ([Token 1 ''A''], [Token 2 ''B'']), ([Token 1 ''A''], [Token 4 ''D''])]"
proof -
  let ?m = "example_model TokenEmbeddings False ''first''"
  let ?s = "example_sentence [span_B, span_D, span_A]"
  have "\<exists>st. generate example_id_text ?m [?s] True 10 = Inr st"
    by (simp add: example_defs generate_defs Let_def)
  then obtain st where gen: "generate example_id_text ?m [?s] True 10 = Inr st"
    by (elim exE)
  have c: "batch_candidates example_id_text ?m [?s] =
      [(?s, [Token 2 ''B''], [Token 4 ''D''], ''born_in''),
       (?s, [Token 2 ''B''], [Token 1 ''A''], ''O''),
       (?s, [Token 4 ''D''], [Token 2 ''B''], ''O''),
       (?s, [Token 4 ''D''], [Token 1 ''A''], ''O''),
       (?s, [Token 1 ''A''], [Token 2 ''B''], ''O''),
       (?s, [Token 1 ''A''], [Token 4 ''D''], ''O'')]"
    by (simp add: spec_defs example_defs)
  note T = labels_follow_gold_index [OF gen]
  have r1: "labels st = [[''born_in''], [''O''], [''O''], [''O''], [''O''], [''O'']]"
    using T [THEN conjunct1] unfolding c by simp
  have "empty_label_candidates st =
          map (\<lambda>(s, a, b, l). \<lparr> candidate_head = a, candidate_tail = b \<rparr>)
            (batch_candidates example_id_text ?m [?s])"
    using T [THEN conjunct2, THEN conjunct1] by simp
  then have r2: "map (\<lambda>c. (candidate_head c, candidate_tail c)) (empty_label_candidates st) =
        [([Token 2 ''B''], [Token 4 ''D'']), ([Token 2 ''B''], [Token 1 ''A'']),
         ([Token 4 ''D''], [Token 2 ''B'']), ([Token 4 ''D''], [Token 1 ''A'']),
         ([Token 1 ''A''], [Token 2 ''B'']), ([Token 1 ''A''], [Token 4 ''D''])]"
    unfolding c by simp
  show ?thesis
    by (rule exI [of _ st]) (intro conjI gen r1 r2)
qed

section \<open>C3: the number of candidates\<close>

lemma length_filter_other:
  assumes "distinct (map f xs)" and "a \<in> set xs"
  shows "length (filter (\<lambda>b. f a \<noteq> f b) xs) = length xs - 1"
  using assms
proof (induction xs)
  case Nil
  then show ?case by simp
next
  case (Cons x xs)
  show ?case
  proof (cases "a = x")
    case True
    have "filter (\<lambda>b. f x \<noteq> f b) xs = xs"
      using Cons.prems(1) by (auto simp: filter_id_conv)
    then show ?thesis using True by simp
  next
    case False
    then have in_xs: "a \<in> set xs" using Cons.prems(2) by simp
    have "f x \<notin> f ` set xs" using Cons.prems(1) by simp
    then have "f a \<noteq> f x" using in_xs by (metis imageI)
    moreover have "length xs > 0" using in_xs by (cases xs) auto
    ultimately show ?thesis
      using Cons.IH in_xs Cons.prems(1) by simp
  qed
qed

lemma length_concat_const:
  "(\<And>x. x \<in> set xs \<Longrightarrow> length (g x) = k) \<Longrightarrow> length (concat (map g xs)) = length xs * k"
  by (induction xs) simp_all

lemma ordered_pairs_count:
  assumes "distinct (map f xs)"
  shows "length [h a b. a \<leftarrow> xs, b \<leftarrow> xs, f a \<noteq> f b] = length xs * (length xs - 1)"
proof -
  have inner: "concat (map (\<lambda>b. if P b then [k b] else []) ys) = map k (filter P ys)"
    for P k ys
    by (induction ys) simp_all
  have eq: "[h a b. a \<leftarrow> xs, b \<leftarrow> xs, f a \<noteq> f b]
          = concat (map (\<lambda>a. map (h a) (filter (\<lambda>b. f a \<noteq> f b) xs)) xs)"
    by (simp add: inner)
  show ?thesis
    unfolding eq
    by (rule length_concat_const) (simp add: length_filter_other [OF assms])
qed

lemma for_each_total:
  assumes "\<And>x s. x \<in> set xs \<Longrightarrow> \<exists>s'. body x s = Inr s'"
  shows "\<exists>s'. for_each body xs s = Inr s'"
  using assms
proof (induction xs arbitrary: s)
  case Nil
  then show ?case by simp
next
  case (Cons x xs)
  obtain t where "body x s = Inr t"
    using Cons.prems [of x s] by auto
  moreover obtain s' where "for_each body xs t = Inr s'"
    using Cons.IH [of t] Cons.prems by auto
  ultimately show ?case by simp
qed

lemma pair_body_total:
  assumes "\<not> use_entity_markers m" and "rlc \<longrightarrow> span_of a \<noteq> []"
  shows "\<exists>st'. pair_body id_text m rlc sent d a b st = Inr st'"
  using assms
  by (auto simp: pair_body_def emit_pair_def Let_def split: option.splits list.splits)

lemma sentence_body_total:
  assumes "\<not> use_entity_markers m"
    and "rlc \<longrightarrow> list_all (\<lambda>a. span_of a \<noteq> []) (get_span_labels sent (span_label_type m))"
  shows "\<exists>st'. sentence_body id_text m rlc sent st = Inr st'"
  unfolding sentence_body_def Let_def
  using assms
  by (intro for_each_total pair_body_total) (auto simp: list_all_iff)

lemma generate_total:
  assumes "\<not> use_entity_markers m"
    and "rlc \<longrightarrow> list_all (\<lambda>sent. list_all (\<lambda>a. span_of a \<noteq> [])
                   (get_span_labels sent (span_label_type m))) sentences"
  shows "\<exists>st. generate id_text m sentences rlc ref = Inr st"
  unfolding generate_def
  using assms
  by (intro for_each_total sentence_body_total) (auto simp: list_all_iff)

lemma length_ordered_pairs:
  assumes "distinct (map span_address S)"
  shows "length (ordered_pairs S) = length S * (length S - 1)"
  unfolding ordered_pairs_def
  using ordered_pairs_count [OF assms, of "\<lambda>a b. (span_of a, span_of b)"] .

lemma spec_candidates_all_pairs:
  assumes "use_entity_pairs m = None" and "\<not> use_gold_spans m"
  shows "spec_candidates id_text m sent =
         map (\<lambda>(a, b). (sent, a, b, hd (gold_or_default id_text m sent a b)))
           (ordered_pairs (get_span_labels sent (span_label_type m)))"
proof -
  have g: "\<exists>l. gold_or_default id_text m sent x y = [l]" for x y
    using assms(2) by (simp add: gold_or_default_def split: option.splits)
  have p: "pair_candidates id_text m sent a b =
           (if span_address a \<noteq> span_address b
            then [(sent, span_of a, span_of b,
                   hd (gold_or_default id_text m sent (span_of a) (span_of b)))]
            else [])" for a b
    using g [of "span_of a" "span_of b"] assms(1)
    by (auto simp: pair_candidates_def allowed_pair_def)
  have q: "pair_candidates id_text m sent a =
           (\<lambda>b. if span_address a \<noteq> span_address b
                then [(sent, span_of a, span_of b,
                       hd (gold_or_default id_text m sent (span_of a) (span_of b)))]
                else [])" for a
    by (rule ext) (rule p)
  show ?thesis
    by (simp add: spec_candidates_nested ordered_pairs_def map_concat comp_def q
        if_distrib [of "map _"] cong: if_cong)
qed

lemma gold_or_default_single:
  assumes "\<not> use_gold_spans m"
  shows "[hd (gold_or_default id_text m sent x y)] = gold_or_default id_text m sent x y"
  using assms by (simp add: gold_or_default_def split: option.splits)

lemma candidate_lists:
  assumes "use_entity_pairs m = None" and "\<not> use_gold_spans m"
    and "generate id_text m [sent] rlc ref = Inr st"
  shows "labels st = map (\<lambda>(a, b). gold_or_default id_text m sent a b)
                       (ordered_pairs (get_span_labels sent (span_label_type m)))"
    and "length (entity_pairs st) =
           length (ordered_pairs (get_span_labels sent (span_label_type m)))"
    and "rlc \<Longrightarrow>
           map (\<lambda>c. (candidate_head c, candidate_tail c)) (empty_label_candidates st) =
             ordered_pairs (get_span_labels sent (span_label_type m))"
    and "\<not> use_entity_markers m \<Longrightarrow>
           entity_pairs st = ordered_pairs (get_span_labels sent (span_label_type m))"
    and "use_entity_markers m \<Longrightarrow>
           length (sentences_to_embed st) =
             length (ordered_pairs (get_span_labels sent (span_label_type m)))"
    and "use_entity_markers m \<Longrightarrow>
           i < length (ordered_pairs (get_span_labels sent (span_label_type m))) \<Longrightarrow>
           add_entity_markers (ref + i) sent
               (fst (ordered_pairs (get_span_labels sent (span_label_type m)) ! i))
               (snd (ordered_pairs (get_span_labels sent (span_label_type m)) ! i)) =
             Inr (sentences_to_embed st ! i, entity_pairs st ! i)"
proof -
  let ?P = "ordered_pairs (get_span_labels sent (span_label_type m))"
  let ?c = "\<lambda>(a, b). (sent, a, b, hd (gold_or_default id_text m sent a b))"
  have a: "aligned m rlc [sent] ref (map ?c ?P) st"
    using generate_aligned [OF assms(3)] spec_candidates_all_pairs [OF assms(1,2)]
    by (simp add: batch_candidates_def)
  show "labels st = map (\<lambda>(a, b). gold_or_default id_text m sent a b) ?P"
    using a by (simp add: aligned_def comp_def split_def gold_or_default_single [OF assms(2)])
  show "length (entity_pairs st) = length ?P"
    using a by (cases "use_entity_markers m") (simp_all add: aligned_def)
  show "map (\<lambda>c. (candidate_head c, candidate_tail c)) (empty_label_candidates st) = ?P"
    if rlc
    using a that by (simp add: aligned_def comp_def split_def)
  show "entity_pairs st = ?P" if "\<not> use_entity_markers m"
    using a that by (simp add: aligned_def comp_def split_def)
  show "length (sentences_to_embed st) = length ?P" if "use_entity_markers m"
    using a that by (simp add: aligned_def)
  show "add_entity_markers (ref + i) sent (fst (?P ! i)) (snd (?P ! i)) =
          Inr (sentences_to_embed st ! i, entity_pairs st ! i)"
    if "use_entity_markers m" and "i < length ?P"
  proof -
    have "list_all (\<lambda>i. case map ?c ?P ! i of (s, a, b, l) \<Rightarrow>
                   add_entity_markers (ref + i) s a b =
                     Inr (sentences_to_embed st ! i, entity_pairs st ! i))
                 [0..<length ?P]"
      using a that(1) by (simp add: aligned_def)
    then have "case map ?c ?P ! i of (s, a, b, l) \<Rightarrow>
                   add_entity_markers (ref + i) s a b =
                     Inr (sentences_to_embed st ! i, entity_pairs st ! i)"
      using that(2) by (simp add: list_all_iff)
    then show ?thesis
      using that(2) by (simp add: split_def)
  qed
qed

text \<open>
  Claim C3, amended. For a sentence whose span labels \<open>S\<close> hold pairwise different
  \<^verbatim>\<open>Span\<close> objects, with no allow-list and gold-only mode off, the candidate loops over
  that sentence, when they complete, produce \<open>length S * (length S - 1)\<close> candidates: the
  ordered pairs of spans of \<open>S\<close> but the self-pairs, in nested iteration order (outer
  \<open>span_1\<close>, inner \<open>span_2\<close>). The order is that of every list of the call: the label of
  candidate \<open>i\<close> is the gold value or \<open>O\<close> of pair \<open>i\<close>, the label candidate \<open>i\<close> holds pair
  \<open>i\<close>, and the entity pair \<open>i\<close> is pair \<open>i\<close> or, with entity markers, what
  \<open>add_entity_markers\<close> returned for pair \<open>i\<close>, together with the rewritten sentence \<open>i\<close>.
  Without entity markers the loops complete (in prediction, when no span is empty).
  (Two \<^verbatim>\<open>Span\<close> objects over the same tokens are different spans and form two candidates;
  when two span labels hold the same \<^verbatim>\<open>Span\<close> object, the pairs of these two are skipped
  as well and the count is smaller.)
\<close>

theorem candidate_count:
  assumes "use_entity_pairs m = None" and "\<not> use_gold_spans m"
    and "distinct (map span_address (get_span_labels sent (span_label_type m)))"
  shows "length (ordered_pairs (get_span_labels sent (span_label_type m))) =
           length (get_span_labels sent (span_label_type m)) *
           (length (get_span_labels sent (span_label_type m)) - 1)
       \<and> (\<forall>st. generate id_text m [sent] rlc ref = Inr st \<longrightarrow>
            length (labels st) =
              length (get_span_labels sent (span_label_type m)) *
              (length (get_span_labels sent (span_label_type m)) - 1)
          \<and> length (entity_pairs st) =
              length (get_span_labels sent (span_label_type m)) *
              (length (get_span_labels sent (span_label_type m)) - 1)
          \<and> labels st =
              map (\<lambda>(span_1, span_2). gold_or_default id_text m sent span_1 span_2)
                (ordered_pairs (get_span_labels sent (span_label_type m)))
          \<and> (rlc \<longrightarrow>
               map (\<lambda>c. (candidate_head c, candidate_tail c)) (empty_label_candidates st) =
               ordered_pairs (get_span_labels sent (span_label_type m)))
          \<and> (\<not> use_entity_markers m \<longrightarrow>
               entity_pairs st = ordered_pairs (get_span_labels sent (span_label_type m)))
          \<and> (use_entity_markers m \<longrightarrow>
               length (sentences_to_embed st) =
                 length (get_span_labels sent (span_label_type m)) *
                 (length (get_span_labels sent (span_label_type m)) - 1)
               \<and> (\<forall>i < length (ordered_pairs (get_span_labels sent (span_label_type m))).
                    add_entity_markers (ref + i) sent
                        (fst (ordered_pairs (get_span_labels sent (span_label_type m)) ! i))
                        (snd (ordered_pairs (get_span_labels sent (span_label_type m)) ! i)) =
                      Inr (sentences_to_embed st ! i, entity_pairs st ! i))))
       \<and> (\<not> use_entity_markers m
            \<and> (rlc \<longrightarrow> list_all (\<lambda>a. span_of a \<noteq> [])
                          (get_span_labels sent (span_label_type m)))
          \<longrightarrow> (\<exists>st. generate id_text m [sent] rlc ref = Inr st))"
proof (intro conjI allI impI)
  let ?S = "get_span_labels sent (span_label_type m)"
  show n: "length (ordered_pairs ?S) = length ?S * (length ?S - 1)"
    using length_ordered_pairs [OF assms(3)] .
  fix st
  assume gen: "generate id_text m [sent] rlc ref = Inr st"
  note L = candidate_lists [OF assms(1,2) gen]
  show "labels st =
          map (\<lambda>(span_1, span_2). gold_or_default id_text m sent span_1 span_2)
            (ordered_pairs ?S)"
    using L(1) .
  then show "length (labels st) = length ?S * (length ?S - 1)"
    using n by simp
  show "length (entity_pairs st) = length ?S * (length ?S - 1)"
    using L(2) n by simp
  show "map (\<lambda>c. (candidate_head c, candidate_tail c)) (empty_label_candidates st) =
          ordered_pairs ?S" if rlc
    using L(3) [OF that] .
  show "entity_pairs st = ordered_pairs ?S" if "\<not> use_entity_markers m"
    using L(4) [OF that] .
  show "length (sentences_to_embed st) = length ?S * (length ?S - 1)"
    if "use_entity_markers m"
    using L(5) [OF that] n by simp
  show "add_entity_markers (ref + i) sent
          (fst (ordered_pairs ?S ! i)) (snd (ordered_pairs ?S ! i)) =
        Inr (sentences_to_embed st ! i, entity_pairs st ! i)"
    if "use_entity_markers m" and "i < length (ordered_pairs ?S)" for i
    using L(6) [OF that] .
next
  assume "\<not> use_entity_markers m
            \<and> (rlc \<longrightarrow> list_all (\<lambda>a. span_of a \<noteq> [])
                          (get_span_labels sent (span_label_type m)))"
  then show "\<exists>st. generate id_text m [sent] rlc ref = Inr st"
    by (intro generate_total) simp_all
qed

theorem candidate_count_witness:
  "(\<exists>st. generate example_id_text (example_model TokenEmbeddings False ''first'')
          [example_sentence [span_B, span_B_copy, span_D]] True 10 = Inr st
     \<and> length (labels st) = 6
     \<and> labels st = [[''O''], [''born_in''], [''O''], [''born_in''], [''O''], [''O'']]
     \<and> map (\<lambda>c. (candidate_head c, candidate_tail c)) (empty_label_candidates st) =
        [([Token 2 ''B''], [Token 2 ''B'']), ([Token 2 ''B''], [Token 4 ''D'']),
         ([Token 2 ''B''], [Token 2 ''B'']), ([Token 2 ''B''], [Token 4 ''D'']),
         ([Token 4 ''D''], [Token 2 ''B'']), ([Token 4 ''D''], [Token 2 ''B''])]
     \<and> entity_pairs st =
        [([Token 2 ''B''], [Token 2 ''B'']), ([Token 2 ''B''], [Token 4 ''D'']),
         ([Token 2 ''B''], [Token 2 ''B'']), ([Token 2 ''B''], [Token 4 ''D'']),
         ([Token 4 ''D''], [Token 2 ''B'']), ([Token 4 ''D''], [Token 2 ''B''])])
   \<and> (\<exists>st. generate example_id_text (example_model TokenEmbeddings True ''first'')
          [example_sentence [span_B, span_D]] False 10 = Inr st
     \<and> labels st = [[''born_in''], [''O'']]
     \<and> length (sentences_to_embed st) = 2
     \<and> length (entity_pairs st) = 2
     \<and> map token_text (tokens (sentences_to_embed st ! 0)) =
         [''A'', ''<e1>'', ''B'', ''</e1>'', ''C'', ''<e2>'', ''D'', ''</e2>'']
     \<and> map token_text (fst (entity_pairs st ! 0)) = [''<e1>'']
     \<and> map token_text (snd (entity_pairs st ! 0)) = [''<e2>'']
     \<and> map token_text (tokens (sentences_to_embed st ! 1)) =
         [''A'', ''<e2>'', ''B'', ''</e2>'', ''C'', ''<e1>'', ''D'', ''</e1>'']
     \<and> map token_text (fst (entity_pairs st ! 1)) = [''<e2>'']
     \<and> map token_text (snd (entity_pairs st ! 1)) = [''<e1>''])"
proof -
  let ?m = "example_model TokenEmbeddings False ''first''"
  let ?s = "example_sentence [span_B, span_B_copy, span_D]"
  let ?n = "example_model TokenEmbeddings True ''first''"
  let ?t = "example_sentence [span_B, span_D]"
  have S: "get_span_labels ?s (span_label_type ?m) = [span_B, span_B_copy, span_D]"
    by (simp add: example_defs)
  have h1: "use_entity_pairs ?m = None" and h2: "\<not> use_gold_spans ?m"
    and h4: "\<not> use_entity_markers ?m"
    by (simp_all add: example_defs)
  have h3: "distinct (map span_address (get_span_labels ?s (span_label_type ?m)))"
    unfolding S by (simp add: span_B_def span_D_def span_B_copy_def)
  have h5: "\<not> use_entity_markers ?m \<and>
        (True \<longrightarrow> list_all (\<lambda>a. span_of a \<noteq> []) (get_span_labels ?s (span_label_type ?m)))"
    unfolding S using h4 by (simp add: span_B_def span_D_def span_B_copy_def)
  have P: "ordered_pairs [span_B, span_B_copy, span_D] =
        [([Token 2 ''B''], [Token 2 ''B'']), ([Token 2 ''B''], [Token 4 ''D'']),
         ([Token 2 ''B''], [Token 2 ''B'']), ([Token 2 ''B''], [Token 4 ''D'']),
         ([Token 4 ''D''], [Token 2 ''B'']), ([Token 4 ''D''], [Token 2 ''B''])]"
    by (simp add: ordered_pairs_def span_B_def span_D_def span_B_copy_def)
  note T = candidate_count [OF h1 h2 h3, of example_id_text True 10]
  from T [THEN conjunct2, THEN conjunct2, rule_format, OF h5] obtain st where
    gen: "generate example_id_text ?m [?s] True 10 = Inr st" by (elim exE)
  note U = T [THEN conjunct2, THEN conjunct1, rule_format, OF gen]
  have r1: "length (labels st) = 6"
    using U [THEN conjunct1] unfolding S by simp
  have r2: "labels st = [[''O''], [''born_in''], [''O''], [''born_in''], [''O''], [''O'']]"
    using U [THEN conjunct2, THEN conjunct2, THEN conjunct1] unfolding S P
    by (simp add: spec_defs example_defs)
  have r3: "map (\<lambda>c. (candidate_head c, candidate_tail c)) (empty_label_candidates st) =
        [([Token 2 ''B''], [Token 2 ''B'']), ([Token 2 ''B''], [Token 4 ''D'']),
         ([Token 2 ''B''], [Token 2 ''B'']), ([Token 2 ''B''], [Token 4 ''D'']),
         ([Token 4 ''D''], [Token 2 ''B'']), ([Token 4 ''D''], [Token 2 ''B''])]"
    using U [THEN conjunct2, THEN conjunct2, THEN conjunct2, THEN conjunct1] unfolding S P
    by simp
  have r4: "entity_pairs st =
        [([Token 2 ''B''], [Token 2 ''B'']), ([Token 2 ''B''], [Token 4 ''D'']),
         ([Token 2 ''B''], [Token 2 ''B'']), ([Token 2 ''B''], [Token 4 ''D'']),
         ([Token 4 ''D''], [Token 2 ''B'']), ([Token 4 ''D''], [Token 2 ''B''])]"
    using U [THEN conjunct2, THEN conjunct2, THEN conjunct2, THEN conjunct2, THEN conjunct1] h4
    unfolding S P by simp
  have first: "\<exists>st. generate example_id_text ?m [?s] True 10 = Inr st
     \<and> length (labels st) = 6
     \<and> labels st = [[''O''], [''born_in''], [''O''], [''born_in''], [''O''], [''O'']]
     \<and> map (\<lambda>c. (candidate_head c, candidate_tail c)) (empty_label_candidates st) =
        [([Token 2 ''B''], [Token 2 ''B'']), ([Token 2 ''B''], [Token 4 ''D'']),
         ([Token 2 ''B''], [Token 2 ''B'']), ([Token 2 ''B''], [Token 4 ''D'']),
         ([Token 4 ''D''], [Token 2 ''B'']), ([Token 4 ''D''], [Token 2 ''B''])]
     \<and> entity_pairs st =
        [([Token 2 ''B''], [Token 2 ''B'']), ([Token 2 ''B''], [Token 4 ''D'']),
         ([Token 2 ''B''], [Token 2 ''B'']), ([Token 2 ''B''], [Token 4 ''D'']),
         ([Token 4 ''D''], [Token 2 ''B'']), ([Token 4 ''D''], [Token 2 ''B''])]"
    by (rule exI [of _ st]) (intro conjI gen r1 r2 r3 r4)
  have S': "get_span_labels ?t (span_label_type ?n) = [span_B, span_D]"
    by (simp add: example_defs)
  have k1: "use_entity_pairs ?n = None" and k2: "\<not> use_gold_spans ?n"
    and k4: "use_entity_markers ?n"
    by (simp_all add: example_defs)
  have k3: "distinct (map span_address (get_span_labels ?t (span_label_type ?n)))"
    unfolding S' by (simp add: span_B_def span_D_def)
  have P': "ordered_pairs [span_B, span_D] =
        [([Token 2 ''B''], [Token 4 ''D'']), ([Token 4 ''D''], [Token 2 ''B''])]"
    by (simp add: ordered_pairs_def span_B_def span_D_def)
  have "\<exists>st. generate example_id_text ?n [?t] False 10 = Inr st"
    by (simp add: example_defs generate_defs marker_defs Let_def upt_rec take_Cons' drop_Cons')
  then obtain st' where gen': "generate example_id_text ?n [?t] False 10 = Inr st'"
    by (elim exE)
  note V = candidate_count [OF k1 k2 k3, of example_id_text False 10,
      THEN conjunct2, THEN conjunct1, rule_format, OF gen']
  have q1: "labels st' = [[''born_in''], [''O'']]"
    using V [THEN conjunct2, THEN conjunct2, THEN conjunct1] unfolding S' P'
    by (simp add: spec_defs example_defs)
  note V6 = V [THEN conjunct2, THEN conjunct2, THEN conjunct2, THEN conjunct2, THEN conjunct2,
      rule_format, OF k4]
  have q2: "length (sentences_to_embed st') = 2"
    using V6 [THEN conjunct1] unfolding S' by simp
  have q3: "length (entity_pairs st') = 2"
    using V [THEN conjunct2, THEN conjunct1] unfolding S' by simp
  have W: "\<forall>i < 2. add_entity_markers (10 + i) ?t
                        (fst ([([Token 2 ''B''], [Token 4 ''D'']),
                               ([Token 4 ''D''], [Token 2 ''B''])] ! i))
                        (snd ([([Token 2 ''B''], [Token 4 ''D'']),
                               ([Token 4 ''D''], [Token 2 ''B''])] ! i)) =
                      Inr (sentences_to_embed st' ! i, entity_pairs st' ! i)"
    using V6 [THEN conjunct2] unfolding S' P' by simp
  have w0: "add_entity_markers 10 ?t [Token 2 ''B''] [Token 4 ''D''] =
      Inr (sentences_to_embed st' ! 0, entity_pairs st' ! 0)"
    using W [rule_format, of 0] by simp
  have w1: "add_entity_markers 11 ?t [Token 4 ''D''] [Token 2 ''B''] =
      Inr (sentences_to_embed st' ! 1, entity_pairs st' ! 1)"
    using W [rule_format, of 1] by simp
  have e0: "\<exists>es p. add_entity_markers 10 ?t [Token 2 ''B''] [Token 4 ''D''] = Inr (es, p)
      \<and> map token_text (tokens es) =
         [''A'', ''<e1>'', ''B'', ''</e1>'', ''C'', ''<e2>'', ''D'', ''</e2>'']
      \<and> map token_text (fst p) = [''<e1>''] \<and> map token_text (snd p) = [''<e2>'']"
    by (simp add: example_defs marker_defs Let_def upt_rec take_Cons' drop_Cons')
  have e1: "\<exists>es p. add_entity_markers 11 ?t [Token 4 ''D''] [Token 2 ''B''] = Inr (es, p)
      \<and> map token_text (tokens es) =
         [''A'', ''<e2>'', ''B'', ''</e2>'', ''C'', ''<e1>'', ''D'', ''</e1>'']
      \<and> map token_text (fst p) = [''<e2>''] \<and> map token_text (snd p) = [''<e1>'']"
    by (simp add: example_defs marker_defs Let_def upt_rec take_Cons' drop_Cons')
  have q4: "map token_text (tokens (sentences_to_embed st' ! 0)) =
         [''A'', ''<e1>'', ''B'', ''</e1>'', ''C'', ''<e2>'', ''D'', ''</e2>'']"
    and q5: "map token_text (fst (entity_pairs st' ! 0)) = [''<e1>'']"
    and q6: "map token_text (snd (entity_pairs st' ! 0)) = [''<e2>'']"
    using e0 unfolding w0 by simp_all
  have q7: "map token_text (tokens (sentences_to_embed st' ! 1)) =
         [''A'', ''<e2>'', ''B'', ''</e2>'', ''C'', ''<e1>'', ''D'', ''</e1>'']"
    and q8: "map token_text (fst (entity_pairs st' ! 1)) = [''<e2>'']"
    and q9: "map token_text (snd (entity_pairs st' ! 1)) = [''<e1>'']"
    using e1 unfolding w1 by simp_all
  have second: "\<exists>st. generate example_id_text ?n [?t] False 10 = Inr st
     \<and> labels st = [[''born_in''], [''O'']]
     \<and> length (sentences_to_embed st) = 2
     \<and> length (entity_pairs st) = 2
     \<and> map token_text (tokens (sentences_to_embed st ! 0)) =
         [''A'', ''<e1>'', ''B'', ''</e1>'', ''C'', ''<e2>'', ''D'', ''</e2>'']
     \<and> map token_text (fst (entity_pairs st ! 0)) = [''<e1>'']
     \<and> map token_text (snd (entity_pairs st ! 0)) = [''<e2>'']
     \<and> map token_text (tokens (sentences_to_embed st ! 1)) =
         [''A'', ''<e2>'', ''B'', ''</e2>'', ''C'', ''<e1>'', ''D'', ''</e1>'']
     \<and> map token_text (fst (entity_pairs st ! 1)) = [''<e2>'']
     \<and> map token_text (snd (entity_pairs st ! 1)) = [''<e1>'']"
    by (rule exI [of _ st']) (intro conjI gen' q1 q2 q3 q4 q5 q6 q7 q8 q9)
  show ?thesis
    using first second by (rule conjI)
qed

theorem candidate_count_shared_span_counterexample:
  "generate example_id_text (example_model TokenEmbeddings False ''first'')
     [example_sentence [span_B, span_B_again]] False 10 =
   Inr \<lparr> empty_label_candidates = [], entity_pairs = [], labels = [],
         sentences_to_label = [],
         sentences_to_embed = [example_sentence [span_B, span_B_again]],
         next_ref = 10 \<rparr>
   \<and> use_entity_pairs (example_model TokenEmbeddings False ''first'') = None
   \<and> \<not> use_gold_spans (example_model TokenEmbeddings False ''first'')
   \<and> get_span_labels (example_sentence [span_B, span_B_again])
       (span_label_type (example_model TokenEmbeddings False ''first'')) =
      [span_B, span_B_again]
   \<and> length [span_B, span_B_again] * (length [span_B, span_B_again] - 1) = 2
   \<and> span_address span_B_again = span_address span_B
   \<and> span_value span_B_again \<noteq> span_value span_B"
  by (simp add: example_defs span_B_again_def generate_defs Let_def)

section \<open>C7: no candidates\<close>

lemma for_each_unchanged:
  assumes "\<And>x. x \<in> set xs \<Longrightarrow> body x s = Inr s"
  shows "for_each body xs s = Inr s"
  using assms by (induction xs) simp_all

lemma sentence_body_few_spans:
  assumes "length (get_span_labels sent (span_label_type m)) < 2"
  shows "sentence_body id_text m rlc sent st = Inr st"
proof (cases "get_span_labels sent (span_label_type m)")
  case Nil
  then show ?thesis by (simp add: sentence_body_def)
next
  case (Cons a rest)
  then have "rest = []" using assms by simp
  then show ?thesis
    using Cons by (simp add: sentence_body_def pair_body_def Let_def)
qed

lemma generate_few_spans:
  assumes "list_all (\<lambda>s. length (get_span_labels s (span_label_type m)) < 2) sentences"
  shows "\<exists>st. generate id_text m sentences rlc ref = Inr st \<and> labels st = []"
  unfolding generate_def
  using assms
  by (subst for_each_unchanged) (simp_all add: sentence_body_few_spans list_all_iff)

lemma forward_pass_no_labels:
  assumes gen: "generate id_text m sentences rlc ref = Inr st" and "labels st = []"
  shows "forward_pass id_text m sentences rlc ref =
           Inr (\<lparr> scores = None, result_labels = [],
                  label_candidates = (if rlc then Some ([], []) else None) \<rparr>,
                embeddings m)"
proof -
  have "aligned m rlc sentences ref (batch_candidates id_text m sentences) st"
    using generate_aligned [OF gen] .
  then have "batch_candidates id_text m sentences = []"
    and "sentences_to_label st = []" and "empty_label_candidates st = []"
    using assms(2) by (auto simp: aligned_def split: if_splits)
  then show ?thesis
    using assms by (simp add: forward_pass_def)
qed

text \<open>
  Claim C7. When no candidate is generated for the batch, as when every sentence has
  fewer than two span labels, \<open>forward_pass\<close> returns normally: the scores are \<open>None\<close>,
  the labels are the empty list, in prediction the two candidate lists are empty, and
  the embedding provider is left as it was (nothing is embedded or decoded).
\<close>

theorem no_candidates_no_scores:
  "(list_all (\<lambda>s. length (get_span_labels s (span_label_type m)) < 2) sentences
      \<or> (\<exists>st. generate id_text m sentences rlc ref = Inr st \<and> labels st = [])
     \<longrightarrow> forward_pass id_text m sentences rlc ref =
           Inr (\<lparr> scores = None, result_labels = [],
                  label_candidates = (if rlc then Some ([], []) else None) \<rparr>,
                embeddings m))"
  using generate_few_spans forward_pass_no_labels by blast

theorem no_candidates_no_scores_witness:
  "forward_pass example_id_text (example_model TokenEmbeddings True ''first_last'')
     [example_sentence [span_B], example_sentence []] True 10 =
   Inr (\<lparr> scores = None, result_labels = [], label_candidates = Some ([], []) \<rparr>,
        example_embeddings TokenEmbeddings)
   \<and> forward_pass example_id_text
       ((example_model TokenEmbeddings False ''first'') \<lparr> use_gold_spans := True \<rparr>)
       [example_sentence [span_A, span_D]] False 10 =
     Inr (\<lparr> scores = None, result_labels = [], label_candidates = None \<rparr>,
          example_embeddings TokenEmbeddings)"
proof -
  let ?m = "example_model TokenEmbeddings True ''first_last''"
  let ?g = "(example_model TokenEmbeddings False ''first'') \<lparr> use_gold_spans := True \<rparr>"
  have h: "list_all (\<lambda>s. length (get_span_labels s (span_label_type ?m)) < 2)
             [example_sentence [span_B], example_sentence []]"
    by (simp add: example_defs)
  have e: "embeddings ?m = example_embeddings TokenEmbeddings"
    "embeddings ?g = example_embeddings TokenEmbeddings"
    by (simp_all add: example_defs Let_def)
  have first: "forward_pass example_id_text ?m
     [example_sentence [span_B], example_sentence []] True 10 =
   Inr (\<lparr> scores = None, result_labels = [], label_candidates = Some ([], []) \<rparr>,
        example_embeddings TokenEmbeddings)"
    using no_candidates_no_scores [rule_format, OF disjI1, OF h, of example_id_text True 10]
    unfolding e by simp
  have g: "\<exists>st. generate example_id_text ?g [example_sentence [span_A, span_D]] False 10 = Inr st
      \<and> labels st = []"
    by (simp add: example_defs generate_defs Let_def)
  have second: "forward_pass example_id_text ?g [example_sentence [span_A, span_D]] False 10 =
     Inr (\<lparr> scores = None, result_labels = [], label_candidates = None \<rparr>,
          example_embeddings TokenEmbeddings)"
    using no_candidates_no_scores [rule_format, OF disjI2, OF g]
    unfolding e by simp
  show ?thesis
    using first second by (rule conjI)
qed

section \<open>Chunks and the embedding loops\<close>

lemma concat_slices:
  "concat (map (\<lambda>k. take step (drop (k * step) xs)) [0..<n]) = take (n * step) xs"
proof (induction n)
  case 0
  then show ?case by simp
next
  case (Suc n)
  have "take (n * step + step) xs = take (n * step) xs @ take step (drop (n * step) xs)"
    by (rule take_add)
  then show ?case
    using Suc by (simp add: add.commute)
qed

lemma ceil_div_covers:
  assumes "0 < step"
  shows "(n::nat) \<le> ((n + step - 1) div step) * step"
proof -
  have "n + step - 1 < ((n + step - 1) div step) * step + step"
    using assms by (metis add.commute dividend_less_div_times)
  then show ?thesis using assms by linarith
qed

lemma slices_Inr:
  assumes "0 < step"
  shows "\<exists>cs. slices step xs = Inr cs
    \<and> concat cs = xs
    \<and> length cs = (length xs + step - 1) div step
    \<and> list_all (\<lambda>c. length c \<le> step) cs
    \<and> (xs \<noteq> [] \<longrightarrow> cs \<noteq> [] \<and> hd cs = take step xs)"
proof -
  let ?n = "(length xs + step - 1) div step"
  let ?cs = "map (\<lambda>k. take step (drop (k * step) xs)) [0..<?n]"
  have s: "slices step xs = Inr ?cs"
    using assms by (simp add: slices_def)
  have c: "concat ?cs = xs"
    using ceil_div_covers [OF assms, of "length xs"] by (simp add: concat_slices)
  have l: "list_all (\<lambda>c. length c \<le> step) ?cs"
    by (simp add: list_all_iff)
  have h: "?cs \<noteq> [] \<and> hd ?cs = take step xs" if "xs \<noteq> []"
  proof -
    have "0 < length xs" using that by simp
    then have "step \<le> length xs + step - 1" by linarith
    then have "0 < ?n" using assms by (simp add: div_greater_zero_iff)
    then have "[0..<?n] = 0 # [1..<?n]"
      by (simp add: upt_conv_Cons)
    then show ?thesis by simp
  qed
  show ?thesis
    using s c l h by (intro exI [of _ ?cs]) simp
qed

lemma document_tail:
  assumes "detach st"
  shows "\<exists>st'. for_each document_step cs st = Inr st'
    \<and> provider st' = (provider st)
         \<lparr> emb_training := (if cs = [] then emb_training (provider st) else False),
           calls := calls (provider st) @ later_calls cs \<rparr>
    \<and> relation_embeddings st' =
        relation_embeddings st @
        concat (map (map (sentence_embedding (provider st) False)) cs)"
  using assms
proof (induction cs arbitrary: st)
  case Nil
  then show ?case by (simp add: later_calls_def)
next
  case (Cons c cs)
  define st1 where "st1 =
    \<lparr> provider = embed (eval_mode (provider st)) c,
      relation_embeddings = relation_embeddings st @
         map (sentence_embedding (provider st) False) c,
      detach = True \<rparr>"
  have s: "document_step c st = Inr st1"
    using Cons.prems
    by (simp add: document_step_def st1_def Let_def embed_def eval_mode_def)
  have d: "detach st1" by (simp add: st1_def)
  from Cons.IH [OF d] obtain st' where
    r: "for_each document_step cs st1 = Inr st'"
    and p: "provider st' = (provider st1)
         \<lparr> emb_training := (if cs = [] then emb_training (provider st1) else False),
           calls := calls (provider st1) @ later_calls cs \<rparr>"
    and e: "relation_embeddings st' =
        relation_embeddings st1 @
        concat (map (map (sentence_embedding (provider st1) False)) cs)"
    by blast
  have "for_each document_step (c # cs) st = Inr st'"
    using s r by simp
  moreover have "provider st' = (provider st)
         \<lparr> emb_training := False,
           calls := calls (provider st) @ later_calls (c # cs) \<rparr>"
    using p by (simp add: st1_def embed_def eval_mode_def later_calls_def)
  moreover have "relation_embeddings st' =
        relation_embeddings st @
        concat (map (map (sentence_embedding (provider st) False)) (c # cs))"
    using e by (simp add: st1_def embed_def eval_mode_def)
  ultimately show ?case by simp
qed

lemma document_loop:
  assumes "\<not> detach st"
  shows "\<exists>st'. for_each document_step (c # cs) st = Inr st'
    \<and> provider st' = (provider st)
         \<lparr> emb_training := (if cs = [] then emb_training (provider st) else False),
           calls := calls (provider st) @ Embed (emb_training (provider st)) c # later_calls cs \<rparr>
    \<and> relation_embeddings st' =
        relation_embeddings st @
        map (sentence_embedding (provider st) (emb_training (provider st))) c @
        concat (map (map (sentence_embedding (provider st) False)) cs)"
proof -
  define st1 where "st1 =
    \<lparr> provider = embed (provider st) c,
      relation_embeddings = relation_embeddings st @
         map (sentence_embedding (provider st) (emb_training (provider st))) c,
      detach = True \<rparr>"
  have s: "document_step c st = Inr st1"
    using assms by (simp add: document_step_def st1_def Let_def embed_def)
  have d: "detach st1" by (simp add: st1_def)
  from document_tail [OF d, of cs] obtain st' where
    r: "for_each document_step cs st1 = Inr st'"
    and p: "provider st' = (provider st1)
         \<lparr> emb_training := (if cs = [] then emb_training (provider st1) else False),
           calls := calls (provider st1) @ later_calls cs \<rparr>"
    and e: "relation_embeddings st' =
        relation_embeddings st1 @
        concat (map (map (sentence_embedding (provider st1) False)) cs)"
    by blast
  have "for_each document_step (c # cs) st = Inr st'"
    using s r by simp
  moreover have "provider st' = (provider st)
         \<lparr> emb_training := (if cs = [] then emb_training (provider st) else False),
           calls := calls (provider st) @ Embed (emb_training (provider st)) c # later_calls cs \<rparr>"
    using p by (simp add: st1_def embed_def)
  moreover have "relation_embeddings st' =
        relation_embeddings st @
        map (sentence_embedding (provider st) (emb_training (provider st))) c @
        concat (map (map (sentence_embedding (provider st) False)) cs)"
    using e by (simp add: st1_def embed_def)
  ultimately show ?thesis by simp
qed

lemma pair_loop:
  assumes "for_each (pair_embedding e b) pairs rel = Inr rel'"
  shows "rel' = rel @ map (pair_vector e b) pairs
    \<and> list_all (\<lambda>p. fst p \<noteq> [] \<and> snd p \<noteq> []) pairs"
  using assms
proof (induction pairs arbitrary: rel)
  case Nil
  then show ?case by simp
next
  case (Cons p pairs)
  from Cons.prems obtain rel1 where
    s: "pair_embedding e b p rel = Inr rel1" and r: "for_each (pair_embedding e b) pairs rel1 = Inr rel'"
    by (auto split: sum.splits)
  have "rel1 = rel @ [pair_vector e b p] \<and> fst p \<noteq> [] \<and> snd p \<noteq> []"
    using s by (auto simp: pair_embedding_def pair_vector_def split: list.splits)
  then show ?case
    using Cons.IH [OF r] by simp
qed

lemma token_tail:
  assumes "detach st" and "for_each token_step zs st = Inr st'"
  shows "provider st' = (provider st)
         \<lparr> emb_training := (if zs = [] then emb_training (provider st) else False),
           calls := calls (provider st) @ later_calls (map fst zs) \<rparr>
    \<and> relation_embeddings st' =
        relation_embeddings st @
        concat (map (\<lambda>z. map (pair_vector (provider st) False) (snd z)) zs)"
  using assms
proof (induction zs arbitrary: st)
  case Nil
  then show ?case by (simp add: later_calls_def)
next
  case (Cons z zs)
  from Cons.prems(2) obtain st1 where
    s: "token_step z st = Inr st1" and r: "for_each token_step zs st1 = Inr st'"
    by (auto split: sum.splits)
  let ?e = "embed (eval_mode (provider st)) (fst z)"
  from s Cons.prems(1) obtain rel where
    l: "for_each (pair_embedding ?e False) (snd z) (relation_embeddings st) = Inr rel"
    and st1: "st1 = \<lparr> provider = ?e, relation_embeddings = rel, detach = True \<rparr>"
    by (auto simp: token_step_def Let_def eval_mode_def embed_def split: sum.splits)
  have rel: "rel = relation_embeddings st @ map (pair_vector ?e False) (snd z)"
    using pair_loop [OF l] by simp
  have pv: "pair_vector ?e False = pair_vector (provider st) False"
    by (rule ext) (simp add: pair_vector_def embed_def eval_mode_def)
  have d: "detach st1" by (simp add: st1)
  note IH = Cons.IH [OF d r]
  have pv1: "pair_vector (provider st1) False = pair_vector (provider st) False"
    by (rule ext) (simp add: st1 pair_vector_def embed_def eval_mode_def)
  have "provider st' = (provider st)
         \<lparr> emb_training := False,
           calls := calls (provider st) @ later_calls (map fst (z # zs)) \<rparr>"
    using IH by (simp add: st1 embed_def eval_mode_def later_calls_def)
  moreover have "relation_embeddings st' =
        relation_embeddings st @
        concat (map (\<lambda>z. map (pair_vector (provider st) False) (snd z)) (z # zs))"
    using IH by (simp add: pv1) (simp add: st1 rel pv)
  ultimately show ?case by simp
qed

lemma token_loop:
  assumes "\<not> detach st" and "for_each token_step (z # zs) st = Inr st'"
  shows "provider st' = (provider st)
         \<lparr> emb_training := (if zs = [] then emb_training (provider st) else False),
           calls := calls (provider st) @
                    Embed (emb_training (provider st)) (fst z) # later_calls (map fst zs) \<rparr>
    \<and> relation_embeddings st' =
        relation_embeddings st @
        map (pair_vector (provider st) (emb_training (provider st))) (snd z) @
        concat (map (\<lambda>z. map (pair_vector (provider st) False) (snd z)) zs)"
proof -
  from assms(2) obtain st1 where
    s: "token_step z st = Inr st1" and r: "for_each token_step zs st1 = Inr st'"
    by (auto split: sum.splits)
  let ?e = "embed (provider st) (fst z)"
  let ?b = "emb_training (provider st)"
  from s assms(1) obtain rel where
    l: "for_each (pair_embedding ?e ?b) (snd z) (relation_embeddings st) = Inr rel"
    and st1: "st1 = \<lparr> provider = ?e, relation_embeddings = rel, detach = True \<rparr>"
    by (auto simp: token_step_def Let_def split: sum.splits)
  have rel: "rel = relation_embeddings st @ map (pair_vector ?e ?b) (snd z)"
    using pair_loop [OF l] by simp
  have pv: "pair_vector ?e = pair_vector (provider st)"
    by (rule ext)+ (simp add: pair_vector_def embed_def)
  have d: "detach st1" by (simp add: st1)
  note T = token_tail [OF d r]
  have pv1: "pair_vector (provider st1) = pair_vector (provider st)"
    by (rule ext)+ (simp add: st1 pair_vector_def embed_def)
  have "provider st' = (provider st)
         \<lparr> emb_training := (if zs = [] then emb_training (provider st) else False),
           calls := calls (provider st) @
                    Embed (emb_training (provider st)) (fst z) # later_calls (map fst zs) \<rparr>"
    using T by (simp add: st1 embed_def)
  moreover have "relation_embeddings st' =
        relation_embeddings st @
        map (pair_vector (provider st) (emb_training (provider st))) (snd z) @
        concat (map (\<lambda>z. map (pair_vector (provider st) False) (snd z)) zs)"
    using T by (simp add: pv1) (simp add: st1 rel pv)
  ultimately show ?thesis by simp
qed

lemma embed_all_result:
  assumes "embed_all m steps pair_steps = Inr (e', rel)"
    and "embedded_chunks m steps pair_steps = c # cs"
  shows "e' = (embeddings m)
           \<lparr> emb_training :=
               (if training m then True
                else if cs = [] then emb_training (embeddings m) else False),
             calls := calls (embeddings m) @
                      Embed (emb_training (embeddings m)) c # later_calls cs @
                      (if training m then [Train] else []) \<rparr>"
proof (cases "embeddings_class (embeddings m) = TransformerDocumentEmbeddings")
  case True
  then have s: "steps = c # cs"
    using assms(2) by (simp add: embedded_chunks_def)
  let ?st0 = "\<lparr> provider = embeddings m, relation_embeddings = [], detach = False \<rparr>"
  have "\<not> detach ?st0" by simp
  from document_loop [OF this, of c cs] obtain st' where
    r: "for_each document_step (c # cs) ?st0 = Inr st'"
    and p: "provider st' = (embeddings m)
         \<lparr> emb_training := (if cs = [] then emb_training (embeddings m) else False),
           calls := calls (embeddings m) @ Embed (emb_training (embeddings m)) c # later_calls cs \<rparr>"
    by auto
  have "e' = (if training m then train_mode (provider st') else provider st')"
    using assms(1) True r s by (simp add: embed_all_def Let_def)
  then show ?thesis
    using p by (simp add: train_mode_def)
next
  case False
  then obtain z zs where z: "zip steps pair_steps = z # zs" and c: "c = fst z" "cs = map fst zs"
    using assms(2) by (auto simp: embedded_chunks_def)
  let ?st0 = "\<lparr> provider = embeddings m, relation_embeddings = [], detach = False \<rparr>"
  from assms(1) False z obtain st' where
    r: "for_each token_step (z # zs) ?st0 = Inr st'"
    and e: "e' = (if training m then train_mode (provider st') else provider st')"
    by (auto simp: embed_all_def Let_def split: sum.splits)
  have "\<not> detach ?st0" by simp
  from token_loop [OF this r] have
    p: "provider st' = (embeddings m)
         \<lparr> emb_training := (if zs = [] then emb_training (embeddings m) else False),
           calls := calls (embeddings m) @
                    Embed (emb_training (embeddings m)) (fst z) # later_calls (map fst zs) \<rparr>"
    by simp
  show ?thesis
    using e p c by (simp add: train_mode_def)
qed

lemma embed_all_vectors:
  assumes "embed_all m steps pair_steps = Inr (e', rel)"
    and "length steps = length pair_steps" and "steps \<noteq> []"
  shows "rel = chunk_vectors m (emb_training (embeddings m)) (hd steps, hd pair_steps) @
               concat (map (chunk_vectors m False) (zip (tl steps) (tl pair_steps)))"
proof -
  from assms(2,3) obtain c cs p ps where
    s: "steps = c # cs" "pair_steps = p # ps" and l: "length cs = length ps"
    by (cases steps; cases pair_steps) auto
  let ?st0 = "\<lparr> provider = embeddings m, relation_embeddings = [], detach = False \<rparr>"
  have nd: "\<not> detach ?st0" by simp
  show ?thesis
  proof (cases "embeddings_class (embeddings m) = TransformerDocumentEmbeddings")
    case True
    from document_loop [OF nd, of c cs] obtain st' where
      r: "for_each document_step (c # cs) ?st0 = Inr st'"
      and v: "relation_embeddings st' =
          map (sentence_embedding (embeddings m) (emb_training (embeddings m))) c @
          concat (map (map (sentence_embedding (embeddings m) False)) cs)"
      by auto
    have "rel = relation_embeddings st'"
      using assms(1) True r s by (simp add: embed_all_def Let_def)
    moreover have "map (chunk_vectors m False) (zip cs ps) =
        map (map (sentence_embedding (embeddings m) False)) cs"
      using l True
      by (induction cs ps rule: list_induct2) (simp_all add: chunk_vectors_def)
    ultimately show ?thesis
      using v s True by (simp add: chunk_vectors_def)
  next
    case False
    from assms(1) False s obtain st' where
      r: "for_each token_step ((c, p) # zip cs ps) ?st0 = Inr st'"
      and e: "rel = relation_embeddings st'"
      by (auto simp: embed_all_def Let_def split: sum.splits)
    from token_loop [OF nd r] have
      v: "relation_embeddings st' =
          map (pair_vector (embeddings m) (emb_training (embeddings m))) p @
          concat (map (\<lambda>z. map (pair_vector (embeddings m) False) (snd z)) (zip cs ps))"
      by simp
    have cv: "chunk_vectors m False = (\<lambda>z. map (pair_vector (embeddings m) False) (snd z))"
      using False by (intro ext) (simp add: chunk_vectors_def)
    have "chunk_vectors m (emb_training (embeddings m)) (c, p) =
        map (pair_vector (embeddings m) (emb_training (embeddings m))) p"
      using False by (simp add: chunk_vectors_def)
    then show ?thesis
      using v e s by (simp add: cv)
  qed
qed

lemma forward_pass_stages:
  assumes "forward_pass id_text m sentences rlc ref = Inr (r, e')" and "result_labels r \<noteq> []"
  shows "\<exists>st steps pair_steps rel all_relations sc.
      generate id_text m sentences rlc ref = Inr st
    \<and> result_labels r = labels st
    \<and> label_candidates r =
        (if rlc then Some (sentences_to_label st, empty_label_candidates st) else None)
    \<and> embed_steps (length sentences) (sentences_to_embed st) (entity_pairs st) =
        Inr (steps, pair_steps)
    \<and> embed_all m steps pair_steps = Inr (e', rel)
    \<and> stack rel = Inr all_relations
    \<and> decode m (apply_dropout (dropout m) all_relations) = Inr sc
    \<and> scores r = Some sc"
  using assms
  by (auto simp: forward_pass_def split: sum.splits if_splits prod.splits)

lemma generate_lengths:
  assumes "generate id_text m sentences rlc ref = Inr st"
  shows "length (entity_pairs st) = length (labels st)"
    and "use_entity_markers m \<Longrightarrow> length (sentences_to_embed st) = length (labels st)"
    and "\<not> use_entity_markers m \<Longrightarrow> sentences_to_embed st = sentences"
    and "labels st \<noteq> [] \<Longrightarrow> sentences \<noteq> []"
proof -
  note a = generate_aligned [OF assms]
  show "length (entity_pairs st) = length (labels st)"
    using a by (auto simp: aligned_def split: if_splits)
  show "use_entity_markers m \<Longrightarrow> length (sentences_to_embed st) = length (labels st)"
    using a by (auto simp: aligned_def split: if_splits)
  show "\<not> use_entity_markers m \<Longrightarrow> sentences_to_embed st = sentences"
    using a by (auto simp: aligned_def split: if_splits)
  show "labels st \<noteq> [] \<Longrightarrow> sentences \<noteq> []"
    using a by (auto simp: aligned_def batch_candidates_def)
qed

lemma embed_steps_plain:
  "embed_steps (length sentences) sentences pairs = Inr ([sentences], [pairs])"
  by (simp add: embed_steps_def)

lemma ceil_div_one:
  assumes "0 < p" and "p \<le> k"
  shows "(p + k - 1) div k = (1::nat)"
proof -
  have e: "p + k - 1 = k + (p - 1)" using assms by simp
  have l: "p - 1 < k" using assms by simp
  have g: "(k + r) div k = 1" if "r < k" for r
  proof -
    have "k \<noteq> 0" using that by auto
    then have "(k + r) div k = r div k + 1" by (rule div_add_self1)
    then show ?thesis using that by simp
  qed
  show ?thesis
    using g [OF l] by (simp only: e)
qed

lemma embed_steps_chunked:
  assumes "length xs = length ys" and "xs \<noteq> []" and "0 < n"
  shows "\<exists>steps pair_steps. embed_steps n xs ys = Inr (steps, pair_steps)
     \<and> length steps = (length xs + 4 * n - 1) div (4 * n)
     \<and> length pair_steps = length steps
     \<and> list_all (\<lambda>c. length c \<le> 4 * n) steps
     \<and> list_all (\<lambda>c. length c \<le> 4 * n) pair_steps
     \<and> concat steps = xs \<and> concat pair_steps = ys
     \<and> steps \<noteq> [] \<and> hd steps = take (4 * n) xs \<and> hd pair_steps = take (4 * n) ys
     \<and> (length xs \<le> 4 * n \<longrightarrow> steps = [xs] \<and> pair_steps = [ys])"
proof (cases "length xs \<le> 4 * n")
  case True
  have "0 < length xs" using assms(2) by simp
  then have "(length xs + 4 * n - 1) div (4 * n) = 1"
    using True by (rule ceil_div_one)
  then show ?thesis
    using True assms(1) by (simp add: embed_steps_def mult.commute)
next
  case False
  have pos: "0 < n * 4" using assms(3) by simp
  have y: "ys \<noteq> []" using assms(1,2) by auto
  from slices_Inr [OF pos, of xs] assms(2) obtain cs where
    cs: "slices (n * 4) xs = Inr cs" "concat cs = xs"
      "length cs = (length xs + n * 4 - 1) div (n * 4)"
      "list_all (\<lambda>c. length c \<le> n * 4) cs" "cs \<noteq> []" "hd cs = take (n * 4) xs"
    by blast
  from slices_Inr [OF pos, of ys] y obtain ds where
    ds: "slices (n * 4) ys = Inr ds" "concat ds = ys"
      "length ds = (length ys + n * 4 - 1) div (n * 4)"
      "list_all (\<lambda>c. length c \<le> n * 4) ds" "ds \<noteq> []" "hd ds = take (n * 4) ys"
    by blast
  have "embed_steps n xs ys = Inr (cs, ds)"
    using False cs(1) ds(1) by (simp add: embed_steps_def mult.commute)
  then show ?thesis
    using cs ds assms(1) False by (simp add: mult.commute)
qed

lemma concat_chunk_vectors:
  assumes "length cs = length ps"
  shows "concat (map (chunk_vectors m b) (zip cs ps)) = chunk_vectors m b (concat cs, concat ps)"
  using assms
  by (induction cs ps rule: list_induct2) (simp_all add: chunk_vectors_def)

lemma tl_of_chunks:
  assumes "concat cs = xs" and "cs \<noteq> []" and "hd cs = take k xs"
  shows "concat (tl cs) = drop k xs"
proof -
  have "cs = hd cs # tl cs" using assms(2) by simp
  then have "concat cs = take k xs @ concat (tl cs)"
    using assms(3) by (metis concat.simps(2))
  then have "take k xs @ concat (tl cs) = take k xs @ drop k xs"
    using assms(1) by simp
  then show ?thesis by (simp only: same_append_eq)
qed

section \<open>C9: the modes of the embedding provider\<close>

lemmas forward_defs = forward_pass_def example_defs generate_defs marker_defs embed_defs Let_def
  upt_rec take_Cons' drop_Cons'

lemma pair_loop_total:
  assumes "list_all (\<lambda>p. fst p \<noteq> [] \<and> snd p \<noteq> []) pairs"
  shows "\<exists>rel'. for_each (pair_embedding e b) pairs rel = Inr rel'"
proof (rule for_each_total)
  fix p rel0
  assume "p \<in> set pairs"
  then have "fst p \<noteq> [] \<and> snd p \<noteq> []"
    using assms by (simp add: list_all_iff)
  then show "\<exists>rel'. pair_embedding e b p rel0 = Inr rel'"
    by (auto simp: pair_embedding_def split: list.splits)
qed

lemma embed_all_total:
  assumes "embeddings_class (embeddings m) = TransformerDocumentEmbeddings
           \<or> list_all (list_all (\<lambda>p. fst p \<noteq> [] \<and> snd p \<noteq> [])) pair_steps"
  shows "\<exists>e' rel. embed_all m steps pair_steps = Inr (e', rel)"
proof (cases "embeddings_class (embeddings m) = TransformerDocumentEmbeddings")
  case True
  have "\<exists>st'. for_each document_step steps
                 \<lparr> provider = embeddings m, relation_embeddings = [], detach = False \<rparr> = Inr st'"
    by (rule for_each_total) (simp add: document_step_def Let_def)
  then show ?thesis
    using True by (auto simp: embed_all_def Let_def)
next
  case False
  then have ok: "list_all (list_all (\<lambda>p. fst p \<noteq> [] \<and> snd p \<noteq> [])) pair_steps"
    using assms by simp
  have "\<exists>st'. for_each token_step (zip steps pair_steps)
                 \<lparr> provider = embeddings m, relation_embeddings = [], detach = False \<rparr> = Inr st'"
  proof (rule for_each_total)
    fix z and st :: "'a embed_loop"
    assume "z \<in> set (zip steps pair_steps)"
    then have "(fst z, snd z) \<in> set (zip steps pair_steps)"
      by simp
    then have "snd z \<in> set pair_steps"
      by (rule set_zip_rightD)
    then have "list_all (\<lambda>p. fst p \<noteq> [] \<and> snd p \<noteq> []) (snd z)"
      using ok by (simp add: list_all_iff)
    from pair_loop_total [OF this,
        of "embed (if detach st then eval_mode (provider st) else provider st) (fst z)"
          "emb_training (if detach st then eval_mode (provider st) else provider st)"
          "relation_embeddings st"]
    obtain rel' where
      "for_each (pair_embedding
                   (embed (if detach st then eval_mode (provider st) else provider st) (fst z))
                   (emb_training (if detach st then eval_mode (provider st) else provider st)))
         (snd z) (relation_embeddings st) = Inr rel'"
      by (elim exE)
    then show "\<exists>st'. token_step z st = Inr st'"
      by (simp add: token_step_def Let_def)
  qed
  then show ?thesis
    using False by (auto simp: embed_all_def Let_def)
qed

lemma two_chunks:
  assumes "0 < k"
  shows "1 < (p + k - 1) div k \<longleftrightarrow> k < (p::nat)"
proof
  assume "1 < (p + k - 1) div k"
  show "k < p"
  proof (rule ccontr)
    assume "\<not> k < p"
    then have "p + k - 1 < 2 * k" using assms by simp
    then have "(p + k - 1) div k < 2"
      using assms by (simp add: less_mult_imp_div_less)
    then show False using \<open>1 < (p + k - 1) div k\<close> by simp
  qed
next
  assume "k < p"
  then have "2 * k \<le> p + k - 1" by simp
  then have "2 * k div k \<le> (p + k - 1) div k" by (rule div_le_mono)
  then show "1 < (p + k - 1) div k" using assms by simp
qed

lemma forward_pass_embeds:
  assumes gen: "generate id_text m sentences rlc ref = Inr st" and ne: "labels st \<noteq> []"
  shows "\<exists>steps pair_steps c cs.
      embed_steps (length sentences) (sentences_to_embed st) (entity_pairs st) =
        Inr (steps, pair_steps)
    \<and> embedded_chunks m steps pair_steps = c # cs
    \<and> concat (c # cs) = sentences_to_embed st
    \<and> (cs \<noteq> [] \<longleftrightarrow> use_entity_markers m \<and> 4 * length sentences < length (labels st))
    \<and> (\<forall>r e'. forward_pass id_text m sentences rlc ref = Inr (r, e') \<longrightarrow>
          (\<exists>rel. embed_all m steps pair_steps = Inr (e', rel)))"
proof -
  note g = generate_lengths [OF gen]
  have link: "\<exists>rel. embed_all m steps pair_steps = Inr (e', rel)"
    if "embed_steps (length sentences) (sentences_to_embed st) (entity_pairs st) =
          Inr (steps, pair_steps)"
      and "forward_pass id_text m sentences rlc ref = Inr (r, e')"
    for steps pair_steps r e'
    using that(2) ne
    by (auto simp: forward_pass_def gen that(1) split: sum.splits prod.splits)
  show ?thesis
  proof (cases "use_entity_markers m")
    case False
    have es: "embed_steps (length sentences) (sentences_to_embed st) (entity_pairs st) =
        Inr ([sentences], [entity_pairs st])"
      using g(3) [OF False] by (simp add: embed_steps_plain)
    have ch: "embedded_chunks m [sentences] [entity_pairs st] = sentences # []"
      by (simp add: embedded_chunks_def)
    have cv: "concat (sentences # []) = sentences_to_embed st"
      using g(3) [OF False] by simp
    have n: "([] :: sentence_data list list) \<noteq> [] \<longleftrightarrow>
        use_entity_markers m \<and> 4 * length sentences < length (labels st)"
      using False by simp
    show ?thesis
      using es ch cv n link [OF es] by blast
  next
    case True
    have l: "length (sentences_to_embed st) = length (entity_pairs st)"
      using g(1) g(2) [OF True] by simp
    have x: "sentences_to_embed st \<noteq> []"
      using g(2) [OF True] ne by auto
    have n: "0 < length sentences"
      using g(4) [OF ne] by simp
    from embed_steps_chunked [OF l x n] obtain steps pair_steps where
      es: "embed_steps (length sentences) (sentences_to_embed st) (entity_pairs st) =
        Inr (steps, pair_steps)"
      and ls: "length steps =
        (length (sentences_to_embed st) + 4 * length sentences - 1) div (4 * length sentences)"
      and lp: "length pair_steps = length steps"
      and cc: "concat steps = sentences_to_embed st" and s0: "steps \<noteq> []"
      by blast
    have ec: "embedded_chunks m steps pair_steps = steps"
      using lp by (simp add: embedded_chunks_def)
    obtain c cs where sc: "steps = c # cs"
      using s0 by (cases steps) auto
    have "cs \<noteq> [] \<longleftrightarrow> 1 < length steps"
      unfolding sc by (cases cs) simp_all
    also have "\<dots> \<longleftrightarrow> 4 * length sentences < length (sentences_to_embed st)"
      unfolding ls using n by (intro two_chunks) simp
    finally have k: "cs \<noteq> [] \<longleftrightarrow>
        use_entity_markers m \<and> 4 * length sentences < length (labels st)"
      using True g(2) [OF True] by simp
    have ch: "embedded_chunks m steps pair_steps = c # cs"
      using ec sc by simp
    have cv: "concat (c # cs) = sentences_to_embed st"
      using cc sc by simp
    show ?thesis
      using es ch cv k link [OF es] by blast
  qed
qed

lemma provider_trace:
  assumes "embedded_chunks m steps pair_steps = c # cs"
    and "embed_all m steps pair_steps = Inr (e', rel)"
  shows "calls e' =
        calls (embeddings m) @
        Embed (emb_training (embeddings m)) c # concat (map (\<lambda>c. [Eval, Embed False c]) cs) @
        (if training m then [Train] else [])"
    and "emb_training e' =
        (if training m then True
         else if cs = [] then emb_training (embeddings m) else False)"
proof -
  note e = embed_all_result [OF assms(2,1)]
  show "calls e' =
        calls (embeddings m) @
        Embed (emb_training (embeddings m)) c # concat (map (\<lambda>c. [Eval, Embed False c]) cs) @
        (if training m then [Train] else [])"
    by (subst e) (simp add: later_calls_def)
  show "emb_training e' =
        (if training m then True
         else if cs = [] then emb_training (embeddings m) else False)"
    by (subst e) simp
qed

text \<open>
  Claim C9. The embedding stage (\<open>embed_all\<close>, lines 196 to 227) over the chunks \<open>c # cs\<close>,
  whenever it completes, has made these calls on the embedding provider: \<open>embed\<close> of the
  first chunk in the mode the provider was in; for every later chunk \<open>eval\<close> and then
  \<open>embed\<close> of the chunk, in evaluation mode; and at the end \<open>train\<close> exactly when the
  model is in training mode. With more than one chunk the provider is left in training
  mode if and only if the model is. The stage completes for a provider of whole-document
  embeddings, and for another provider when no span of an entity pair is empty.

  In \<open>forward_pass\<close> with at least one candidate this stage runs on the chunks of the
  sentences to embed, more than one exactly when entity markers are used and there are
  more than four candidates per input sentence; when \<open>forward_pass\<close> returns, the provider
  is the one this stage left. (The stage has made its calls also when the decoder then
  raises.)
\<close>

theorem provider_modes:
  "(\<forall>steps pair_steps c cs.
      embedded_chunks m steps pair_steps = c # cs \<longrightarrow>
        (\<forall>e' rel. embed_all m steps pair_steps = Inr (e', rel) \<longrightarrow>
           calls e' =
             calls (embeddings m) @
             Embed (emb_training (embeddings m)) c #
             concat (map (\<lambda>c. [Eval, Embed False c]) cs) @
             (if training m then [Train] else [])
         \<and> emb_training e' =
             (if training m then True
              else if cs = [] then emb_training (embeddings m) else False))
      \<and> (embeddings_class (embeddings m) = TransformerDocumentEmbeddings
           \<or> list_all (list_all (\<lambda>p. fst p \<noteq> [] \<and> snd p \<noteq> [])) pair_steps
         \<longrightarrow> (\<exists>e' rel. embed_all m steps pair_steps = Inr (e', rel))))
   \<and> (\<forall>st. generate id_text m sentences rlc ref = Inr st \<and> labels st \<noteq> [] \<longrightarrow>
        (\<exists>steps pair_steps c cs.
            embed_steps (length sentences) (sentences_to_embed st) (entity_pairs st) =
              Inr (steps, pair_steps)
          \<and> embedded_chunks m steps pair_steps = c # cs
          \<and> concat (c # cs) = sentences_to_embed st
          \<and> (cs \<noteq> [] \<longleftrightarrow>
               use_entity_markers m \<and> 4 * length sentences < length (labels st))
          \<and> (\<forall>r e'. forward_pass id_text m sentences rlc ref = Inr (r, e') \<longrightarrow>
                (\<exists>rel. embed_all m steps pair_steps = Inr (e', rel)))))"
proof (intro conjI allI impI)
  fix steps pair_steps c cs e' rel
  assume "embedded_chunks m steps pair_steps = c # cs"
    and "embed_all m steps pair_steps = Inr (e', rel)"
  then show "calls e' =
             calls (embeddings m) @
             Embed (emb_training (embeddings m)) c #
             concat (map (\<lambda>c. [Eval, Embed False c]) cs) @
             (if training m then [Train] else [])"
    and "emb_training e' =
             (if training m then True
              else if cs = [] then emb_training (embeddings m) else False)"
    by (rule provider_trace)+
next
  fix steps :: "sentence_data list list" and pair_steps :: "(span \<times> span) list list"
  assume "embeddings_class (embeddings m) = TransformerDocumentEmbeddings
           \<or> list_all (list_all (\<lambda>p. fst p \<noteq> [] \<and> snd p \<noteq> [])) pair_steps"
  then show "\<exists>e' rel. embed_all m steps pair_steps = Inr (e', rel)"
    by (rule embed_all_total)
next
  fix st
  assume "generate id_text m sentences rlc ref = Inr st \<and> labels st \<noteq> []"
  then show "\<exists>steps pair_steps c cs.
            embed_steps (length sentences) (sentences_to_embed st) (entity_pairs st) =
              Inr (steps, pair_steps)
          \<and> embedded_chunks m steps pair_steps = c # cs
          \<and> concat (c # cs) = sentences_to_embed st
          \<and> (cs \<noteq> [] \<longleftrightarrow>
               use_entity_markers m \<and> 4 * length sentences < length (labels st))
          \<and> (\<forall>r e'. forward_pass id_text m sentences rlc ref = Inr (r, e') \<longrightarrow>
                (\<exists>rel. embed_all m steps pair_steps = Inr (e', rel)))"
    using forward_pass_embeds [of id_text m sentences rlc ref st] by simp
qed

theorem provider_modes_witness:
  "(\<exists>r e' c c2.
      forward_pass example_id_text (example_model TransformerDocumentEmbeddings True ''first'')
        [example_sentence [span_B, span_D, span_A]] False 10 = Inr (r, e')
    \<and> length c = 4 \<and> length c2 = 2
    \<and> calls e' = [Embed True c, Eval, Embed False c2, Train]
    \<and> emb_training e' = True)
   \<and> (\<exists>st c c2 ps e' rel.
      generate example_id_text
        ((example_model TransformerDocumentEmbeddings True ''first'') \<lparr> training := False \<rparr>)
        [example_sentence [span_B, span_D, span_A]] False 10 = Inr st
    \<and> embed_steps 1 (sentences_to_embed st) (entity_pairs st) = Inr ([c, c2], ps)
    \<and> embed_all
        ((example_model TransformerDocumentEmbeddings True ''first'') \<lparr> training := False \<rparr>)
        [c, c2] ps = Inr (e', rel)
    \<and> calls e' = [Embed True c, Eval, Embed False c2]
    \<and> emb_training e' = False)
   \<and> (\<exists>st c c2 ps e' rel.
      generate example_id_text (example_model TokenEmbeddings True ''first_last'')
        [example_sentence [span_B, span_D, span_A]] False 10 = Inr st
    \<and> embed_steps 1 (sentences_to_embed st) (entity_pairs st) = Inr ([c, c2], ps)
    \<and> embed_all (example_model TokenEmbeddings True ''first_last'') [c, c2] ps = Inr (e', rel)
    \<and> calls e' = [Embed True c, Eval, Embed False c2, Train]
    \<and> emb_training e' = True
    \<and> forward_pass example_id_text (example_model TokenEmbeddings True ''first_last'')
        [example_sentence [span_B, span_D, span_A]] False 10 = Inl RuntimeError)"
proof -
  let ?s = "[example_sentence [span_B, span_D, span_A]]"
  let ?d = "example_model TransformerDocumentEmbeddings True ''first''"
  let ?e = "(example_model TransformerDocumentEmbeddings True ''first'') \<lparr> training := False \<rparr>"
  let ?t = "example_model TokenEmbeddings True ''first_last''"
  have W: "\<exists>e' rel. embed_all m [c, c2] ps = Inr (e', rel)
      \<and> calls e' = calls (embeddings m) @
          [Embed (emb_training (embeddings m)) c, Eval, Embed False c2] @
          (if training m then [Train] else [])
      \<and> emb_training e' = training m"
    if ch: "embedded_chunks m [c, c2] ps = [c, c2]"
      and ok: "embeddings_class (embeddings m) = TransformerDocumentEmbeddings
           \<or> list_all (list_all (\<lambda>p. fst p \<noteq> [] \<and> snd p \<noteq> [])) ps"
    for m :: "int relation_extractor" and c c2 ps
  proof -
    note T = provider_modes [where m = m, THEN conjunct1, rule_format, OF ch]
    from T [THEN conjunct2, rule_format, OF ok] obtain e' rel where
      ea: "embed_all m [c, c2] ps = Inr (e', rel)"
      by (elim exE)
    note U = T [THEN conjunct1, rule_format, OF ea]
    have "calls e' = calls (embeddings m) @
          [Embed (emb_training (embeddings m)) c, Eval, Embed False c2] @
          (if training m then [Train] else [])"
      using U [THEN conjunct1] by simp
    moreover have "emb_training e' = training m"
      using U [THEN conjunct2] by simp
    ultimately show ?thesis
      using ea by (intro exI [of _ e'] exI [of _ rel] conjI)
  qed
  have md: "calls (embeddings ?d) = []" "emb_training (embeddings ?d) = True" "training ?d = True"
    "embeddings_class (embeddings ?d) = TransformerDocumentEmbeddings"
    "use_entity_markers ?d"
    by (simp_all add: example_defs Let_def)
  have me: "calls (embeddings ?e) = []" "emb_training (embeddings ?e) = True" "training ?e = False"
    "embeddings_class (embeddings ?e) = TransformerDocumentEmbeddings"
    by (simp_all add: example_defs Let_def)
  have mt: "calls (embeddings ?t) = []" "emb_training (embeddings ?t) = True" "training ?t = True"
    "embeddings_class (embeddings ?t) = TokenEmbeddings"
    by (simp_all add: example_defs Let_def)
  have "\<exists>st c c2 ps. generate example_id_text ?d ?s False 10 = Inr st
      \<and> labels st \<noteq> []
      \<and> embed_steps 1 (sentences_to_embed st) (entity_pairs st) = Inr ([c, c2], ps)
      \<and> length ps = 2 \<and> length c = 4 \<and> length c2 = 2"
    by (simp add: example_defs generate_defs marker_defs embed_defs Let_def
        upt_rec take_Cons' drop_Cons')
  then obtain st c c2 ps where
    gen: "generate example_id_text ?d ?s False 10 = Inr st" and ne: "labels st \<noteq> []"
    and es: "embed_steps 1 (sentences_to_embed st) (entity_pairs st) = Inr ([c, c2], ps)"
    and lp: "length ps = 2" and lc: "length c = 4" "length c2 = 2"
    by (elim exE conjE)
  have ch: "embedded_chunks ?d [c, c2] ps = [c, c2]"
    using md(4) by (simp add: embedded_chunks_def)
  from W [OF ch] md(4) obtain e' rel where
    ea: "embed_all ?d [c, c2] ps = Inr (e', rel)"
    and tr: "calls e' = calls (embeddings ?d) @
          [Embed (emb_training (embeddings ?d)) c, Eval, Embed False c2] @
          (if training ?d then [Train] else [])"
    and mo: "emb_training e' = training ?d"
    by blast
  from provider_modes [where m = ?d and id_text = example_id_text and sentences = ?s
      and rlc = False and ref = 10, THEN conjunct2, rule_format, OF conjI, OF gen ne]
  obtain steps' pair_steps' where
    es': "embed_steps (length ?s) (sentences_to_embed st) (entity_pairs st) =
            Inr (steps', pair_steps')"
    and link: "\<forall>r e'. forward_pass example_id_text ?d ?s False 10 = Inr (r, e') \<longrightarrow>
          (\<exists>rel. embed_all ?d steps' pair_steps' = Inr (e', rel))"
    by (elim exE conjE)
  have same: "steps' = [c, c2]" "pair_steps' = ps"
    using es es' by simp_all
  have "\<exists>r e''. forward_pass example_id_text ?d ?s False 10 = Inr (r, e'')"
    by (simp add: forward_defs)
  then obtain r e'' where fp: "forward_pass example_id_text ?d ?s False 10 = Inr (r, e'')"
    by (elim exE)
  from link [rule_format, OF fp] have "e'' = e'"
    unfolding same ea by simp
  then have fp': "forward_pass example_id_text ?d ?s False 10 = Inr (r, e')"
    using fp by simp
  have a1: "calls e' = [Embed True c, Eval, Embed False c2, Train]"
    using tr unfolding md by simp
  have a2: "emb_training e' = True"
    using mo unfolding md by simp
  have first: "\<exists>r e' c c2.
      forward_pass example_id_text ?d ?s False 10 = Inr (r, e')
    \<and> length c = 4 \<and> length c2 = 2
    \<and> calls e' = [Embed True c, Eval, Embed False c2, Train]
    \<and> emb_training e' = True"
    by (intro exI [of _ r] exI [of _ e'] exI [of _ c] exI [of _ c2] conjI fp' lc a1 a2)
  have "\<exists>st c c2 ps. generate example_id_text ?e ?s False 10 = Inr st
      \<and> embed_steps 1 (sentences_to_embed st) (entity_pairs st) = Inr ([c, c2], ps)"
    by (simp add: example_defs generate_defs marker_defs embed_defs Let_def
        upt_rec take_Cons' drop_Cons')
  then obtain st2 d d2 qs where
    gen2: "generate example_id_text ?e ?s False 10 = Inr st2"
    and es2: "embed_steps 1 (sentences_to_embed st2) (entity_pairs st2) = Inr ([d, d2], qs)"
    by (elim exE conjE)
  have ch2: "embedded_chunks ?e [d, d2] qs = [d, d2]"
    using me(4) by (simp add: embedded_chunks_def)
  from W [OF ch2] me(4) obtain f' rel2 where
    ea2: "embed_all ?e [d, d2] qs = Inr (f', rel2)"
    and tr2: "calls f' = calls (embeddings ?e) @
          [Embed (emb_training (embeddings ?e)) d, Eval, Embed False d2] @
          (if training ?e then [Train] else [])"
    and mo2: "emb_training f' = training ?e"
    by blast
  have b1: "calls f' = [Embed True d, Eval, Embed False d2]"
    using tr2 unfolding me by simp
  have b2: "emb_training f' = False"
    using mo2 unfolding me by simp
  have second: "\<exists>st c c2 ps e' rel.
      generate example_id_text ?e ?s False 10 = Inr st
    \<and> embed_steps 1 (sentences_to_embed st) (entity_pairs st) = Inr ([c, c2], ps)
    \<and> embed_all ?e [c, c2] ps = Inr (e', rel)
    \<and> calls e' = [Embed True c, Eval, Embed False c2]
    \<and> emb_training e' = False"
    by (intro exI [of _ st2] exI [of _ d] exI [of _ d2] exI [of _ qs] exI [of _ f']
        exI [of _ rel2] conjI gen2 es2 ea2 b1 b2)
  have "\<exists>st c c2 ps. generate example_id_text ?t ?s False 10 = Inr st
      \<and> embed_steps 1 (sentences_to_embed st) (entity_pairs st) = Inr ([c, c2], ps)
      \<and> length ps = 2
      \<and> list_all (list_all (\<lambda>p. fst p \<noteq> [] \<and> snd p \<noteq> [])) ps"
    by (simp add: example_defs generate_defs marker_defs embed_defs Let_def
        upt_rec take_Cons' drop_Cons')
  then obtain st3 k k2 rs where
    gen3: "generate example_id_text ?t ?s False 10 = Inr st3"
    and es3: "embed_steps 1 (sentences_to_embed st3) (entity_pairs st3) = Inr ([k, k2], rs)"
    and lr: "length rs = 2"
    and ok3: "list_all (list_all (\<lambda>p. fst p \<noteq> [] \<and> snd p \<noteq> [])) rs"
    by (elim exE conjE)
  obtain r1 r2 where rs: "rs = [r1, r2]"
    using lr by (cases rs; cases "tl rs") auto
  have ch3: "embedded_chunks ?t [k, k2] rs = [k, k2]"
    using mt(4) unfolding rs by (simp add: embedded_chunks_def)
  from W [OF ch3] ok3 obtain g' rel3 where
    ea3: "embed_all ?t [k, k2] rs = Inr (g', rel3)"
    and tr3: "calls g' = calls (embeddings ?t) @
          [Embed (emb_training (embeddings ?t)) k, Eval, Embed False k2] @
          (if training ?t then [Train] else [])"
    and mo3: "emb_training g' = training ?t"
    by blast
  have c1: "calls g' = [Embed True k, Eval, Embed False k2, Train]"
    using tr3 unfolding mt by simp
  have c2: "emb_training g' = True"
    using mo3 unfolding mt by simp
  have c3: "forward_pass example_id_text ?t ?s False 10 = Inl RuntimeError"
    by (simp add: forward_defs)
  have third: "\<exists>st c c2 ps e' rel.
      generate example_id_text ?t ?s False 10 = Inr st
    \<and> embed_steps 1 (sentences_to_embed st) (entity_pairs st) = Inr ([c, c2], ps)
    \<and> embed_all ?t [c, c2] ps = Inr (e', rel)
    \<and> calls e' = [Embed True c, Eval, Embed False c2, Train]
    \<and> emb_training e' = True
    \<and> forward_pass example_id_text ?t ?s False 10 = Inl RuntimeError"
    by (intro exI [of _ st3] exI [of _ k] exI [of _ k2] exI [of _ rs] exI [of _ g']
        exI [of _ rel3] conjI gen3 es3 ea3 c1 c2 c3)
  show ?thesis
    using first second third by (intro conjI)
qed

section \<open>C4: the chunks\<close>

lemma entity_marker_chunks:
  assumes "generate id_text m sentences rlc ref = Inr st"
    and "use_entity_markers m" and "labels st \<noteq> []"
  shows "\<exists>steps pair_steps.
      embed_steps (length sentences) (sentences_to_embed st) (entity_pairs st) =
        Inr (steps, pair_steps)
    \<and> length steps =
        (length (labels st) + 4 * length sentences - 1) div (4 * length sentences)
    \<and> length pair_steps = length steps
    \<and> list_all (\<lambda>c. length c \<le> 4 * length sentences) steps
    \<and> list_all (\<lambda>c. length c \<le> 4 * length sentences) pair_steps
    \<and> concat steps = sentences_to_embed st
    \<and> concat pair_steps = entity_pairs st
    \<and> (length (labels st) \<le> 4 * length sentences \<longrightarrow>
          steps = [sentences_to_embed st] \<and> pair_steps = [entity_pairs st])
    \<and> (\<forall>e' rel. embed_all m steps pair_steps = Inr (e', rel) \<longrightarrow>
          rel = chunk_vectors m (emb_training (embeddings m)) (hd steps, hd pair_steps) @
                concat (map (chunk_vectors m False) (zip (tl steps) (tl pair_steps)))
        \<and> rel = chunk_vectors m (emb_training (embeddings m))
                  (take (4 * length sentences) (sentences_to_embed st),
                   take (4 * length sentences) (entity_pairs st)) @
                chunk_vectors m False
                  (drop (4 * length sentences) (sentences_to_embed st),
                   drop (4 * length sentences) (entity_pairs st))
        \<and> length rel = length (labels st))"
proof -
  note g = generate_lengths [OF assms(1)]
  let ?X = "sentences_to_embed st" and ?Y = "entity_pairs st" and ?k = "4 * length sentences"
  have lx: "length ?X = length (labels st)" using g(2) [OF assms(2)] .
  have l: "length ?X = length ?Y" using g(1) lx by simp
  have x: "?X \<noteq> []" using lx assms(3) by auto
  have n: "0 < length sentences" using g(4) [OF assms(3)] by simp
  from embed_steps_chunked [OF l x n] obtain steps pair_steps where
    es: "embed_steps (length sentences) ?X ?Y = Inr (steps, pair_steps)"
    and len: "length steps = (length ?X + ?k - 1) div ?k"
    and same: "length pair_steps = length steps"
    and b1: "list_all (\<lambda>c. length c \<le> ?k) steps"
    and b2: "list_all (\<lambda>c. length c \<le> ?k) pair_steps"
    and c1: "concat steps = ?X" and c2: "concat pair_steps = ?Y"
    and ne: "steps \<noteq> []" and h1: "hd steps = take ?k ?X" and h2: "hd pair_steps = take ?k ?Y"
    and one: "length ?X \<le> ?k \<longrightarrow> steps = [?X] \<and> pair_steps = [?Y]"
    by blast
  have ne2: "pair_steps \<noteq> []" using ne same by auto
  have out: "rel = chunk_vectors m (emb_training (embeddings m)) (hd steps, hd pair_steps) @
                concat (map (chunk_vectors m False) (zip (tl steps) (tl pair_steps)))
        \<and> rel = chunk_vectors m (emb_training (embeddings m)) (take ?k ?X, take ?k ?Y) @
                chunk_vectors m False (drop ?k ?X, drop ?k ?Y)
        \<and> length rel = length (labels st)"
    if ea: "embed_all m steps pair_steps = Inr (e', rel)" for e' rel
  proof -
    have v: "rel = chunk_vectors m (emb_training (embeddings m)) (hd steps, hd pair_steps) @
                concat (map (chunk_vectors m False) (zip (tl steps) (tl pair_steps)))"
      using embed_all_vectors [OF ea same [symmetric] ne] .
    have t: "length (tl steps) = length (tl pair_steps)"
      using same by simp
    have u: "rel = chunk_vectors m (emb_training (embeddings m)) (take ?k ?X, take ?k ?Y) @
                chunk_vectors m False (drop ?k ?X, drop ?k ?Y)"
      using v
      by (simp add: concat_chunk_vectors [OF t] h1 h2
          tl_of_chunks [OF c1 ne h1] tl_of_chunks [OF c2 ne2 h2])
    have "length rel = length ?X"
      by (subst u) (simp add: chunk_vectors_def l [symmetric])
    then show ?thesis using v u lx by simp
  qed
  show ?thesis
    using es len same b1 b2 c1 c2 one out lx by (intro exI [of _ steps] exI [of _ pair_steps]) simp
qed

text \<open>
  Claim C4, amended. With entity markers, a batch of \<open>N\<close> sentences with \<open>P > 0\<close>
  candidates is embedded in \<open>\<lceil>P / (4 N)\<rceil>\<close> chunks of at most \<open>4 N\<close> consecutive
  elements (one chunk when \<open>P \<le> 4 N\<close>), the same for the rewritten sentences and for
  the entity pairs, and the vectors of the chunks, concatenated in chunk order, are the
  vectors of the candidates in their order: those of the first \<open>4 N\<close> candidates taken
  in the provider's mode, the others in evaluation mode. (Without entity markers the
  input sentences are what is embedded: always one chunk, whatever \<open>P\<close> is.)
\<close>

theorem chunks_with_entity_markers:
  assumes "generate id_text m sentences rlc ref = Inr st"
    and "use_entity_markers m" and "labels st \<noteq> []"
  shows "\<exists>steps pair_steps.
      embed_steps (length sentences) (sentences_to_embed st) (entity_pairs st) =
        Inr (steps, pair_steps)
    \<and> length steps =
        (length (labels st) + 4 * length sentences - 1) div (4 * length sentences)
    \<and> length pair_steps = length steps
    \<and> list_all (\<lambda>c. length c \<le> 4 * length sentences) steps
    \<and> list_all (\<lambda>c. length c \<le> 4 * length sentences) pair_steps
    \<and> concat steps = sentences_to_embed st
    \<and> concat pair_steps = entity_pairs st
    \<and> (length (labels st) \<le> 4 * length sentences \<longrightarrow>
          steps = [sentences_to_embed st] \<and> pair_steps = [entity_pairs st])
    \<and> (\<forall>e' rel. embed_all m steps pair_steps = Inr (e', rel) \<longrightarrow>
          rel = chunk_vectors m (emb_training (embeddings m)) (hd steps, hd pair_steps) @
                concat (map (chunk_vectors m False) (zip (tl steps) (tl pair_steps)))
        \<and> rel = chunk_vectors m (emb_training (embeddings m))
                  (take (4 * length sentences) (sentences_to_embed st),
                   take (4 * length sentences) (entity_pairs st)) @
                chunk_vectors m False
                  (drop (4 * length sentences) (sentences_to_embed st),
                   drop (4 * length sentences) (entity_pairs st))
        \<and> length rel = length (labels st))"
  using assms by (rule entity_marker_chunks)

theorem chunks_with_entity_markers_witness:
  "\<exists>st steps pair_steps.
     generate example_id_text (example_model TokenEmbeddings True ''first'')
       [example_sentence [span_B, span_D, span_A]] False 10 = Inr st
     \<and> embed_steps 1 (sentences_to_embed st) (entity_pairs st) = Inr (steps, pair_steps)
     \<and> length (labels st) = 6
     \<and> length steps = 2 \<and> length pair_steps = 2
     \<and> list_all (\<lambda>c. length c \<le> 4) steps
     \<and> concat steps = sentences_to_embed st \<and> concat pair_steps = entity_pairs st"
proof -
  let ?m = "example_model TokenEmbeddings True ''first''"
  let ?s = "[example_sentence [span_B, span_D, span_A]]"
  have "\<exists>st. generate example_id_text ?m ?s False 10 = Inr st \<and> length (labels st) = 6"
    by (simp add: example_defs generate_defs marker_defs Let_def)
  then obtain st where gen: "generate example_id_text ?m ?s False 10 = Inr st"
    and len: "length (labels st) = 6"
    by (elim exE conjE)
  have mk: "use_entity_markers ?m" by (simp add: example_defs Let_def)
  have ne: "labels st \<noteq> []" using len by auto
  from chunks_with_entity_markers [OF gen mk ne] obtain steps pair_steps where
    es: "embed_steps (length ?s) (sentences_to_embed st) (entity_pairs st) = Inr (steps, pair_steps)"
    and l1: "length steps = (length (labels st) + 4 * length ?s - 1) div (4 * length ?s)"
    and l2: "length pair_steps = length steps"
    and b: "list_all (\<lambda>c. length c \<le> 4 * length ?s) steps"
    and c1: "concat steps = sentences_to_embed st"
    and c2: "concat pair_steps = entity_pairs st"
    by (elim exE conjE)
  have r1: "embed_steps 1 (sentences_to_embed st) (entity_pairs st) = Inr (steps, pair_steps)"
    using es by simp
  have r2: "length steps = 2" using l1 len by simp
  have r3: "length pair_steps = 2" using l2 r2 by simp
  have r4: "list_all (\<lambda>c. length c \<le> 4) steps" using b by simp
  show ?thesis
    by (intro exI [of _ st] exI [of _ steps] exI [of _ pair_steps] conjI gen r1 len r2 r3 r4 c1 c2)
qed

theorem chunks_without_markers_counterexample:
  "\<exists>st steps pair_steps.
     generate example_id_text (example_model TokenEmbeddings False ''first'')
       [example_sentence [span_B, span_D, span_A]] False 10 = Inr st
     \<and> length (labels st) = 6
     \<and> embed_steps 1 (sentences_to_embed st) (entity_pairs st) = Inr (steps, pair_steps)
     \<and> length steps = 1
     \<and> length (hd pair_steps) = 6
     \<and> (6 + 4 * 1 - 1) div (4 * 1) = (2::nat)"
  by (simp add: example_defs generate_defs embed_steps_def Let_def)

section \<open>C1: scores, labels and candidates stand in one order\<close>

lemma linear_forward_rows:
  assumes "linear_forward l rows = Inr out"
  shows "out = map (\<lambda>row. map (unit_output l row) [0..<out_features l]) rows"
    and "list_all (\<lambda>row. length row = in_features l) rows"
  using assms by (auto simp: linear_forward_def split: if_splits)

lemma linear_forward_row:
  assumes "linear_forward l rows = Inr out" and "i < length rows"
  shows "linear_forward l [rows ! i] = Inr [out ! i]"
  using linear_forward_rows [OF assms(1)] assms(2)
  by (simp add: linear_forward_def list_all_length)

lemma linear_forward_length:
  "linear_forward l rows = Inr out \<Longrightarrow> length out = length rows"
  using linear_forward_rows(1) by fastforce

lemma decode_rows:
  assumes "decode m rows = Inr sc"
  shows "length sc = length rows"
    and "i < length rows \<Longrightarrow> decode m [rows ! i] = Inr [sc ! i]"
proof -
  show "length sc = length rows"
    using assms
    by (auto simp: decode_def split: decoder.splits if_splits sum.splits
        dest!: linear_forward_length)
  show "decode m [rows ! i] = Inr [sc ! i]" if i: "i < length rows"
  proof (cases "decoders m")
    case (Decoder l)
    then show ?thesis
      using assms i
      by (auto simp: decode_def split: if_splits intro: linear_forward_row)
  next
    case (Decoder_1_2 l1 f l2)
    from assms Decoder_1_2 obtain hidden where
      n: "non_linear_decoder m"
      and h: "linear_forward l1 rows = Inr hidden"
      and o: "linear_forward l2 (map (map f) hidden) = Inr sc"
      by (auto simp: decode_def split: if_splits sum.splits)
    have hl: "length hidden = length rows"
      using linear_forward_length [OF h] .
    have h1: "linear_forward l1 [rows ! i] = Inr [hidden ! i]"
      using linear_forward_row [OF h i] .
    have "linear_forward l2 [map (map f) hidden ! i] = Inr [sc ! i]"
      using linear_forward_row [OF o, of i] i hl by simp
    then have h2: "linear_forward l2 (map (map f) [hidden ! i]) = Inr [sc ! i]"
      using i hl by simp
    show ?thesis
      using Decoder_1_2 n h1 h2 by (simp add: decode_def)
  qed
qed

lemma apply_dropout_nth:
  "length (apply_dropout d rows) = length rows"
  "i < length rows \<Longrightarrow>
     apply_dropout d rows ! i = map (\<lambda>(j, x). d i j x) (enumerate 0 (rows ! i))"
  by (simp_all add: apply_dropout_def nth_enumerate_eq)

lemma stack_same: "stack rows = Inr all_relations \<Longrightarrow> all_relations = rows"
  by (auto simp: stack_def split: list.splits if_splits)

lemma scores_rows:
  assumes "stack rel = Inr all_relations"
    and "decode m (apply_dropout (dropout m) all_relations) = Inr sc"
  shows "length sc = length rel"
    and "i < length rel \<Longrightarrow> decode_row m i (rel ! i) = Inr [sc ! i]"
proof -
  have a: "all_relations = rel" using stack_same [OF assms(1)] .
  show "length sc = length rel"
    using decode_rows(1) [OF assms(2)] a by (simp add: apply_dropout_nth)
  show "decode_row m i (rel ! i) = Inr [sc ! i]" if "i < length rel"
    using decode_rows(2) [OF assms(2), of i] that a
    by (simp add: apply_dropout_nth decode_row_def)
qed

lemma nth_take_drop_map:
  assumes "i < length xs"
  shows "(map f (take k xs) @ map g (drop k xs)) ! i = (if i < k then f (xs ! i) else g (xs ! i))"
proof (cases "i < k")
  case True
  then show ?thesis using assms by (simp add: nth_append)
next
  case False
  then have "min (length xs) k = k" using assms by simp
  then show ?thesis using False assms by (simp add: nth_append)
qed

lemma relation_vectors:
  assumes gen: "generate id_text m sentences rlc ref = Inr st"
    and ne: "labels st \<noteq> []"
    and es: "embed_steps (length sentences) (sentences_to_embed st) (entity_pairs st) =
             Inr (steps, pair_steps)"
    and ea: "embed_all m steps pair_steps = Inr (e', rel)"
    and cfg: "embeddings_class (embeddings m) \<noteq> TransformerDocumentEmbeddings
              \<or> use_entity_markers m"
  shows "length rel = length (batch_candidates id_text m sentences)"
    and "i < length (batch_candidates id_text m sentences) \<Longrightarrow>
         rel ! i = candidate_vector m (length sentences) ref i
                     (batch_candidates id_text m sentences ! i)"
proof -
  let ?cands = "batch_candidates id_text m sentences"
  let ?X = "sentences_to_embed st" and ?Y = "entity_pairs st" and ?k = "4 * length sentences"
  let ?e = "embeddings m"
  note a = generate_aligned [OF gen]
  have lp: "length (labels st) = length ?cands"
    using a by (simp add: aligned_def)
  have both: "length rel = length ?cands \<and>
     (i < length ?cands \<longrightarrow> rel ! i = candidate_vector m (length sentences) ref i (?cands ! i))"
  proof (cases "use_entity_markers m")
    case True
    from entity_marker_chunks [OF gen True ne] obtain steps' pair_steps' where
      es': "embed_steps (length sentences) ?X ?Y = Inr (steps', pair_steps')"
      and out: "\<forall>e' rel. embed_all m steps' pair_steps' = Inr (e', rel) \<longrightarrow>
          rel = chunk_vectors m (emb_training ?e) (hd steps', hd pair_steps') @
                concat (map (chunk_vectors m False) (zip (tl steps') (tl pair_steps')))
        \<and> rel = chunk_vectors m (emb_training ?e) (take ?k ?X, take ?k ?Y) @
                chunk_vectors m False (drop ?k ?X, drop ?k ?Y)
        \<and> length rel = length (labels st)"
      by (elim exE conjE)
    have same: "steps' = steps" "pair_steps' = pair_steps"
      using es es' by simp_all
    have ea': "embed_all m steps' pair_steps' = Inr (e', rel)"
      using ea unfolding same .
    note o = out [rule_format, OF ea']
    have v: "rel = chunk_vectors m (emb_training ?e) (take ?k ?X, take ?k ?Y) @
                chunk_vectors m False (drop ?k ?X, drop ?k ?Y)"
      using o [THEN conjunct2, THEN conjunct1] .
    have l: "length rel = length (labels st)"
      using o [THEN conjunct2, THEN conjunct2] .
    have lx: "length ?X = length ?cands" and ly: "length ?Y = length ?cands"
      and am: "list_all (\<lambda>i. case ?cands ! i of (s, a, b, l) \<Rightarrow>
                   add_entity_markers (ref + i) s a b = Inr (?X ! i, ?Y ! i))
                 [0..<length ?cands]"
      using a True by (simp_all add: aligned_def)
    have row: "rel ! i = candidate_vector m (length sentences) ref i (?cands ! i)"
      if i: "i < length ?cands"
    proof -
      obtain s x y lab where c: "?cands ! i = (s, x, y, lab)"
        by (cases "?cands ! i") auto
      have "case ?cands ! i of (s, a, b, l) \<Rightarrow>
                   add_entity_markers (ref + i) s a b = Inr (?X ! i, ?Y ! i)"
        using am i by (simp add: list_all_length)
      then have r: "add_entity_markers (ref + i) s x y = Inr (?X ! i, ?Y ! i)"
        unfolding c by simp
      show ?thesis
      proof (cases "embeddings_class ?e = TransformerDocumentEmbeddings")
        case doc: True
        have ix: "i < length ?X" using i lx by simp
        have re: "rel = map (sentence_embedding ?e (emb_training ?e)) (take ?k ?X) @
                    map (sentence_embedding ?e False) (drop ?k ?X)"
          using v doc by (simp add: chunk_vectors_def)
        have "rel ! i = (if i < ?k then sentence_embedding ?e (emb_training ?e) (?X ! i)
                              else sentence_embedding ?e False (?X ! i))"
          unfolding re by (rule nth_take_drop_map [OF ix])
        then show ?thesis
          using c r True doc by (simp add: candidate_vector_def Let_def)
      next
        case tok: False
        have iy: "i < length ?Y" using i ly by simp
        have re: "rel = map (pair_vector ?e (emb_training ?e)) (take ?k ?Y) @
                    map (pair_vector ?e False) (drop ?k ?Y)"
          using v tok by (simp add: chunk_vectors_def)
        have "rel ! i = (if i < ?k then pair_vector ?e (emb_training ?e) (?Y ! i)
                              else pair_vector ?e False (?Y ! i))"
          unfolding re by (rule nth_take_drop_map [OF iy])
        then show ?thesis
          using c r True tok by (simp add: candidate_vector_def Let_def)
      qed
    qed
    show ?thesis using l lp row by simp
  next
    case False
    then have tok: "embeddings_class ?e \<noteq> TransformerDocumentEmbeddings"
      using cfg by simp
    have x: "?X = sentences" and y: "?Y = map (\<lambda>(s, a, b, l). (a, b)) ?cands"
      using a False by (simp_all add: aligned_def)
    have s: "steps = [sentences]" "pair_steps = [?Y]"
      using es unfolding x by (simp_all add: embed_steps_plain)
    have "rel = chunk_vectors m (emb_training ?e) (hd steps, hd pair_steps) @
               concat (map (chunk_vectors m False) (zip (tl steps) (tl pair_steps)))"
      using embed_all_vectors [OF ea] s by simp
    then have v: "rel = map (pair_vector ?e (emb_training ?e)) ?Y"
      using s tok by (simp add: chunk_vectors_def)
    have row: "rel ! i = candidate_vector m (length sentences) ref i (?cands ! i)"
      if i: "i < length ?cands"
    proof -
      obtain s x y lab where c: "?cands ! i = (s, x, y, lab)"
        by (cases "?cands ! i") auto
      have "rel ! i = pair_vector ?e (emb_training ?e) (x, y)"
        using v y i c by simp
      then show ?thesis
        using c False by (simp add: candidate_vector_def Let_def)
    qed
    show ?thesis using v y row by simp
  qed
  show "length rel = length ?cands" using both by simp
  show "i < length ?cands \<Longrightarrow> rel ! i = candidate_vector m (length sentences) ref i (?cands ! i)"
    using both by simp
qed

text \<open>
  Claim C1, amended. Let the provider be one of token embeddings, or entity markers be
  on. When \<open>forward_pass\<close> returns with \<open>P > 0\<close> candidates, the scores are present
  and have \<open>P\<close> rows, the labels are \<open>P\<close> lists of one label each, and in prediction
  the sentences to label and the label candidates are \<open>P\<close> each; entry \<open>i\<close> of every
  one of them belongs to candidate \<open>i\<close> in generation order, and row \<open>i\<close> of the
  scores is what dropout and decoder make of the relation representation of candidate
  \<open>i\<close>. (With whole-document embeddings and no entity markers the input sentences are
  what is embedded, and the scores have one row per sentence.)
\<close>

theorem scores_aligned_with_candidates:
  assumes "forward_pass id_text m sentences rlc ref = Inr (r, e')"
    and "result_labels r \<noteq> []"
    and "embeddings_class (embeddings m) \<noteq> TransformerDocumentEmbeddings
         \<or> use_entity_markers m"
  shows "\<exists>sc. scores r = Some sc
    \<and> length sc = length (result_labels r)
    \<and> list_all (\<lambda>label. length label = 1) (result_labels r)
    \<and> length (batch_candidates id_text m sentences) = length (result_labels r)
    \<and> result_labels r = map (\<lambda>(s, a, b, l). [l]) (batch_candidates id_text m sentences)
    \<and> (rlc \<longrightarrow>
         label_candidates r =
           Some (map (\<lambda>(s, a, b, l). sentence (hd a)) (batch_candidates id_text m sentences),
                 map (\<lambda>(s, a, b, l). \<lparr> candidate_head = a, candidate_tail = b \<rparr>)
                   (batch_candidates id_text m sentences)))
    \<and> list_all (\<lambda>i. decode_row m i
                       (candidate_vector m (length sentences) ref i
                          (batch_candidates id_text m sentences ! i)) = Inr [sc ! i])
        [0..<length (result_labels r)]"
proof -
  let ?cands = "batch_candidates id_text m sentences"
  from forward_pass_stages [OF assms(1,2)] obtain st steps pair_steps rel all_relations sc where
    gen: "generate id_text m sentences rlc ref = Inr st"
    and lab: "result_labels r = labels st"
    and lc: "label_candidates r =
        (if rlc then Some (sentences_to_label st, empty_label_candidates st) else None)"
    and es: "embed_steps (length sentences) (sentences_to_embed st) (entity_pairs st) =
        Inr (steps, pair_steps)"
    and ea: "embed_all m steps pair_steps = Inr (e', rel)"
    and sk: "stack rel = Inr all_relations"
    and de: "decode m (apply_dropout (dropout m) all_relations) = Inr sc"
    and sc: "scores r = Some sc"
    by blast
  have ne: "labels st \<noteq> []" using assms(2) lab by simp
  note a = generate_aligned [OF gen]
  have l1: "labels st = map (\<lambda>(s, a, b, l). [l]) ?cands"
    using a by (simp add: aligned_def)
  have lp: "length ?cands = length (labels st)"
    unfolding l1 by simp
  have ones: "list_all (\<lambda>label. length label = 1) (labels st)"
    unfolding l1 by (simp add: list_all_iff split_def)
  note rv = relation_vectors [OF gen ne es ea assms(3)]
  note sr = scores_rows [OF sk de]
  have len: "length sc = length (labels st)"
    using sr(1) rv(1) lp by simp
  have rows: "list_all (\<lambda>i. decode_row m i
                       (candidate_vector m (length sentences) ref i (?cands ! i)) = Inr [sc ! i])
        [0..<length (labels st)]"
    unfolding list_all_iff
  proof
    fix i assume "i \<in> set [0..<length (labels st)]"
    then have i: "i < length ?cands" using lp by simp
    then have "i < length rel" using rv(1) by simp
    from sr(2) [OF this] show "decode_row m i
        (candidate_vector m (length sentences) ref i (?cands ! i)) = Inr [sc ! i]"
      using rv(2) [OF i] by simp
  qed
  have cand: "label_candidates r =
           Some (map (\<lambda>(s, a, b, l). sentence (hd a)) ?cands,
                 map (\<lambda>(s, a, b, l). \<lparr> candidate_head = a, candidate_tail = b \<rparr>) ?cands)"
    if rlc
  proof -
    have "sentences_to_label st = map (\<lambda>(s, a, b, l). sentence (hd a)) ?cands"
      and "empty_label_candidates st =
          map (\<lambda>(s, a, b, l). \<lparr> candidate_head = a, candidate_tail = b \<rparr>) ?cands"
      using a that by (simp_all add: aligned_def)
    then show ?thesis using lc that by simp
  qed
  have c1: "length sc = length (result_labels r)" using len lab by simp
  have c2: "list_all (\<lambda>label. length label = 1) (result_labels r)" using ones lab by simp
  have c3: "length ?cands = length (result_labels r)" using lp lab by simp
  have c4: "result_labels r = map (\<lambda>(s, a, b, l). [l]) ?cands" using l1 lab by simp
  have c5: "list_all (\<lambda>i. decode_row m i
                       (candidate_vector m (length sentences) ref i (?cands ! i)) = Inr [sc ! i])
        [0..<length (result_labels r)]"
    using rows lab by simp
  show ?thesis
    by (intro exI [of _ sc] conjI impI sc c1 c2 c3 c4 c5 cand)
qed

theorem scores_aligned_with_candidates_witness:
  "\<exists>r e' sc sl cl.
     forward_pass example_id_text (example_model TokenEmbeddings True ''first'')
       [example_sentence [span_B, span_D, span_A]] True 10 = Inr (r, e')
     \<and> scores r = Some sc \<and> length sc = 6
     \<and> length (result_labels r) = 6
     \<and> label_candidates r = Some (sl, cl) \<and> length sl = 6 \<and> length cl = 6
     \<and> decode_row (example_model TokenEmbeddings True ''first'') 5
          (candidate_vector (example_model TokenEmbeddings True ''first'') 1 10 5
             (example_sentence [span_B, span_D, span_A],
              [Token 1 ''A''], [Token 4 ''D''], ''O'')) = Inr [sc ! 5]"
proof -
  let ?m = "example_model TokenEmbeddings True ''first''"
  let ?s = "[example_sentence [span_B, span_D, span_A]]"
  let ?cands = "batch_candidates example_id_text ?m ?s"
  have "\<exists>r e'. forward_pass example_id_text ?m ?s True 10 = Inr (r, e')
      \<and> length (result_labels r) = 6"
    by (simp add: forward_defs)
  then obtain r e' where fp: "forward_pass example_id_text ?m ?s True 10 = Inr (r, e')"
    and len: "length (result_labels r) = 6"
    by (elim exE conjE)
  have ne: "result_labels r \<noteq> []" using len by auto
  have cfg: "embeddings_class (embeddings ?m) \<noteq> TransformerDocumentEmbeddings
         \<or> use_entity_markers ?m"
    by (simp add: example_defs Let_def)
  have c5: "?cands ! 5 =
      (example_sentence [span_B, span_D, span_A], [Token 1 ''A''], [Token 4 ''D''], ''O'')"
    by (simp add: spec_defs example_defs)
  from scores_aligned_with_candidates [OF fp ne cfg] obtain sc where
    s1: "scores r = Some sc" and s2: "length sc = length (result_labels r)"
    and s3: "length ?cands = length (result_labels r)"
    and s4: "True \<longrightarrow> label_candidates r =
           Some (map (\<lambda>(s, a, b, l). sentence (hd a)) ?cands,
                 map (\<lambda>(s, a, b, l). \<lparr> candidate_head = a, candidate_tail = b \<rparr>) ?cands)"
    and s5: "list_all (\<lambda>i. decode_row ?m i
                       (candidate_vector ?m (length ?s) 10 i (?cands ! i)) = Inr [sc ! i])
        [0..<length (result_labels r)]"
    by (elim exE conjE)
  let ?sl = "map (\<lambda>(s, a, b, l). sentence (hd a)) ?cands"
  let ?cl = "map (\<lambda>(s, a, b, l). \<lparr> candidate_head = a, candidate_tail = b \<rparr>) ?cands"
  have r2: "length sc = 6" using s2 len by simp
  have r3: "label_candidates r = Some (?sl, ?cl)" using s4 by simp
  have r4: "length ?sl = 6" "length ?cl = 6" using s3 len by simp_all
  have "decode_row ?m 5 (candidate_vector ?m (length ?s) 10 5 (?cands ! 5)) = Inr [sc ! 5]"
    using s5 unfolding len list_all_length by simp
  then have r5: "decode_row ?m 5
          (candidate_vector ?m 1 10 5
             (example_sentence [span_B, span_D, span_A],
              [Token 1 ''A''], [Token 4 ''D''], ''O'')) = Inr [sc ! 5]"
    unfolding c5 by simp
  show ?thesis
    by (intro exI [of _ r] exI [of _ e'] exI [of _ sc] exI [of _ ?sl] exI [of _ ?cl]
        conjI fp s1 r2 len r3 r4 r5)
qed

theorem document_embeddings_without_markers_counterexample:
  "\<exists>r e' sc.
     forward_pass example_id_text (example_model TransformerDocumentEmbeddings False ''first'')
       [example_sentence [span_B, span_D]] False 10 = Inr (r, e')
     \<and> scores r = Some sc
     \<and> length sc = 1
     \<and> length (result_labels r) = 2"
  by (simp add: forward_defs)

section \<open>C8: the width of the relation representation\<close>

text \<open>
  Claim C8 fails on the code. With a provider of token embeddings of length 1 and the
  default pooling operation \<open>first_last\<close>, the constructor gives the decoder an input
  width of 4, while the relation representation \<open>forward_pass\<close> builds for a candidate is
  the concatenation of two first-token embeddings, of length 2: the decoder rejects it
  and \<open>forward_pass\<close> raises.
\<close>

theorem first_last_pooling_width_mismatch:
  "arg_pooling_operation
     (default_init_args (example_embeddings TokenEmbeddings) [''born_in'']) = ''first_last''
   \<and> decoders (example_model TokenEmbeddings False ''first_last'') =
       Decoder \<lparr> in_features = 4, out_features = 2,
                 unit_output = decoder_weights example_layers \<rparr>
   \<and> candidate_vector (example_model TokenEmbeddings False ''first_last'') 1 10 0
        (example_sentence [span_B, span_D], [Token 2 ''B''], [Token 4 ''D''], ''born_in'')
       = [2, 4]
   \<and> forward_pass example_id_text (example_model TokenEmbeddings False ''first_last'')
        [example_sentence [span_B, span_D]] False 10 = Inl RuntimeError"
  by (simp add: forward_defs candidate_vector_def pair_vector_def)

end
